theory Spec2Isabelle
  imports Main "HOL-Library.Sublist"
begin

section \<open>The CLI engine: data model\<close>

text \<open>
  The engine of \<^verbatim>\<open>cli-engine.js\<close> is written in continuation-passing style over
  Node's asynchronous filesystem calls. The embedding keeps that style: every function
  that takes a callback in the source takes a continuation here, and everything the
  source mutates (module variables, the caller's array, the accumulators, the linter)
  is a field of one explicit state that is threaded through the calls. Every call the
  module makes to a collaborator is appended to a log, in the order it happens.
\<close>

type_synonym path = string

datatype js_error =
    ENOENT path
  | EACCES path
  | EISDIR path
  | TypeError string
  | OtherError string

text \<open>JavaScript values, as far as the options object needs them.\<close>

datatype jsval =
    JUndefined
  | JNull
  | JBool bool
  | JString string
  | JArray "jsval list"
  | JObject "(string \<times> jsval) list"

text \<open>
  An object with own properties and a prototype (one level is all the engine builds):
  \<^verbatim>\<open>Object.create(defaultOptions)\<close> has no own property and \<^verbatim>\<open>defaultOptions\<close> as
  its prototype.
\<close>

record js_object =
  own :: "string \<rightharpoonup> jsval"
  proto :: "string \<rightharpoonup> jsval"

text \<open>LintMessage and LintResult of the source's typedefs.\<close>

record lint_message =
  fatal :: bool
  message :: string

record lint_result =
  filePath :: string
  messages :: "lint_message list"

text \<open>The arguments of a \<^verbatim>\<open>ResultsCallback\<close>: \<^verbatim>\<open>cb(err)\<close> or \<^verbatim>\<open>cb(null, results)\<close>.\<close>

datatype cb_args =
    CbErr js_error
  | CbOk "lint_result list"

text \<open>
  The stream of \<^verbatim>\<open>fstream-ignore\<close> (an external package): it emits one \<^verbatim>\<open>child\<close>
  event per entry it does not ignore, then one terminal event, \<^verbatim>\<open>end\<close>
  (\<open>failure = None\<close>) or \<^verbatim>\<open>error\<close>.
\<close>

record ignore_stream =
  children :: "path list"
  failure :: "js_error option"

text \<open>
  The memoizing locator of \<^verbatim>\<open>./file-finder\<close>: the file name it looks for and its
  cache, keyed by the directory asked for.
\<close>

record file_finder =
  fileName :: string
  cache :: "path \<rightharpoonup> path list"

record cli_engine =
  options :: js_object

text \<open>Every call to a collaborator, and every way control leaves the module.\<close>

datatype event =
    ERulesLoad jsval
  | ENewConfig js_object
  | EStat path
  | EReset
  | EExistsSync path
  | EGetConfig path
  | EReadFileSync path
  | EVerify path
  | ENewFileFinder string
  | EFindAll path
  | EScan path
  | ENewIgnore path
  | EPause
  | EAddIgnoreFile path
  | EResume
  | EChild path
  | ECallback cb_args
  | EUncaught js_error

text \<open>
  The collaborators, as parameters. \<open>resolve\<close>, \<open>stat\<close> and \<open>readFileSync\<close> are Node's
  \<^verbatim>\<open>path.resolve\<close>, \<^verbatim>\<open>fs.stat\<close> (its answer is \<^verbatim>\<open>stats.isDirectory()\<close>) and
  \<^verbatim>\<open>fs.readFileSync\<close> on one snapshot of the filesystem; \<open>ignoreStream dir added\<close> is
  the stream that \<^verbatim>\<open>fstream-ignore\<close> makes for \<open>dir\<close> when the ignore files \<open>added\<close>
  are added to it. \<open>'h\<close> is the configuration helper, \<open>'c\<close> a configuration, \<open>'l\<close> the
  linter's internal state.

  Modelled from the spec: the modules \<^verbatim>\<open>./rules\<close>, \<^verbatim>\<open>./config\<close>, \<^verbatim>\<open>./eslint\<close> and
  \<^verbatim>\<open>./file-finder\<close> are not among the sources. \<open>rulesLoad\<close> is \<^verbatim>\<open>rules.load\<close>, which may
  throw; \<open>newConfig\<close> and \<open>getConfig\<close> are \<^verbatim>\<open>new Config(options)\<close> and
  "getConfig(absolutePath) \<rightarrow> configuration object"; \<open>scan\<close> is the search of the
  filesystem behind \<^verbatim>\<open>FileFinder.findAll\<close>; "reset() (clears cross-file state)" leaves
  the linter in the one state \<open>cleared\<close>; and "verify(text, config, path) \<rightarrow> list of
  Message" must not throw, and may change the linter's state.
\<close>

record ('h, 'c, 'l) env =
  resolve :: "path list \<Rightarrow> path"
  stat :: "path \<Rightarrow> js_error + bool"
  readFileSync :: "path \<Rightarrow> js_error + string"
  ignoreStream :: "path \<Rightarrow> path list \<Rightarrow> ignore_stream"
  scan :: "string \<Rightarrow> path \<Rightarrow> js_error + path list"
  rulesLoad :: "jsval \<Rightarrow> js_error option"
  newConfig :: "js_object \<Rightarrow> 'h"
  getConfig :: "'h \<Rightarrow> path \<Rightarrow> 'c"
  cleared :: "'l"
  verify :: "'l \<Rightarrow> string \<Rightarrow> 'c \<Rightarrow> path \<Rightarrow> lint_message list \<times> 'l"

text \<open>
  What the module mutates: the linter behind \<^verbatim>\<open>eslint\<close>, the module variable
  \<^verbatim>\<open>ignoreFileFinder\<close>, the engine \<^verbatim>\<open>this\<close>, the array \<^verbatim>\<open>files\<close> the caller passed
  and the accumulator \<^verbatim>\<open>results\<close> of \<^verbatim>\<open>executeOnFiles\<close>.
\<close>

record 'l state =
  linter :: "'l"
  ignoreFileFinder :: "file_finder option"
  this :: cli_engine
  files :: "path list"
  results :: "lint_result list"
  log :: "event list"

definition emit :: "event \<Rightarrow> 'l state \<Rightarrow> 'l state" where
  "emit e st = st\<lparr>log := log st @ [e]\<rparr>"

section \<open>Node's path and fs, as far as the engine uses them\<close>

text \<open>
  \<^verbatim>\<open>path.extname\<close> (POSIX): trailing slashes are skipped, the last portion of the path
  is what follows the last remaining slash, and the extension runs from the last dot of
  that portion to its end. It is empty when the portion has no dot, when its last dot is
  its first character, and when the portion is \<^verbatim>\<open>..\<close>.
\<close>

definition stripTrailingSlashes :: "path \<Rightarrow> path" where
  "stripTrailingSlashes p = rev (dropWhile (\<lambda>c. c = CHR ''/'') (rev p))"

definition lastPortion :: "path \<Rightarrow> string" where
  "lastPortion p = rev (takeWhile (\<lambda>c. c \<noteq> CHR ''/'') (rev (stripTrailingSlashes p)))"

definition extname :: "path \<Rightarrow> string" where
  "extname p =
     (let base = lastPortion p;
          ext = rev (takeWhile (\<lambda>c. c \<noteq> CHR ''.'') (rev base));
          stem = take (length base - length ext - 1) base
      in if CHR ''.'' \<notin> set base \<or> stem = [] \<or> base = ''..'' then [] else CHR ''.'' # ext)"

text \<open>
  \<^verbatim>\<open>fs.existsSync\<close> is \<^verbatim>\<open>fs.statSync\<close> with the exception turned into \<^verbatim>\<open>false\<close>.
\<close>

definition existsSync :: "('h, 'c, 'l) env \<Rightarrow> path \<Rightarrow> bool" where
  "existsSync env p = (case stat env p of Inl _ \<Rightarrow> False | Inr _ \<Rightarrow> True)"

section \<open>processFile\<close>

definition ESLINT_IGNORE_FILENAME :: string where
  "ESLINT_IGNORE_FILENAME = ''.eslintignore''"

text \<open>
  \<^verbatim>\<open>eslint.reset()\<close> comes first and puts the linter in the state \<open>cleared env\<close>. The
  call of the body that can throw is \<^verbatim>\<open>fs.readFileSync\<close> (a directory, an unreadable
  file); the exception leaves \<open>processFile\<close> as \<open>Inl\<close>.
\<close>

definition processFile ::
  "('h, 'c, 'l) env \<Rightarrow> path \<Rightarrow> 'h \<Rightarrow> 'l state \<Rightarrow> (js_error + lint_result) \<times> 'l state" where
  "processFile env filename configHelper st =
     (let st1 = emit EReset (st\<lparr>linter := cleared env\<rparr>);
          filePath = resolve env [filename];
          st2 = emit (EExistsSync filePath) st1
      in if existsSync env filePath then
           (let config = getConfig env configHelper filePath;
                st3 = emit (EGetConfig filePath) st2;
                st4 = emit (EReadFileSync (resolve env [filename])) st3
            in case readFileSync env (resolve env [filename]) of
                 Inl err \<Rightarrow> (Inl err, st4)
               | Inr text \<Rightarrow>
                   (let (msgs, l) = verify env (linter st4) text config filename;
                        st5 = emit (EVerify filename) (st4\<lparr>linter := l\<rparr>)
                    in (Inr \<lparr>filePath = filename, messages = msgs\<rparr>, st5)))
         else
           (Inr \<lparr>filePath = filename,
                 messages = [\<lparr>fatal = True,
                              message = ''Could not find file at '' @ [CHR 0x27] @ filePath
                                          @ [CHR 0x27] @ ''.''\<rparr>]\<rparr>, st2))"

section \<open>findIgnoreFiles and the locator\<close>

text \<open>
  Modelled from the spec: \<^verbatim>\<open>FileFinder.findAll\<close> of \<^verbatim>\<open>./file-finder\<close>, which is not
  among the sources. "A single locator instance, once asked for a given starting
  directory, must not re-scan the filesystem for subsequent queries"; "if any ancestor
  directory cannot be read, the whole call fails". \<open>scan env name dir\<close> is the upward
  search on the filesystem itself.
\<close>

definition findAll ::
  "('h, 'c, 'l) env \<Rightarrow> file_finder \<Rightarrow> path \<Rightarrow> 'l state
     \<Rightarrow> (js_error + path list) \<times> file_finder \<times> 'l state" where
  "findAll env finder dir st =
     (let st1 = emit (EFindAll dir) st
      in case cache finder dir of
           Some found \<Rightarrow> (Inr found, finder, st1)
         | None \<Rightarrow>
             (case scan env (fileName finder) dir of
                Inl err \<Rightarrow> (Inl err, finder, emit (EScan dir) st1)
              | Inr found \<Rightarrow>
                  (Inr found, finder\<lparr>cache := (cache finder)(dir \<mapsto> found)\<rparr>,
                   emit (EScan dir) st1)))"

text \<open>
  \<^verbatim>\<open>ignoreFileFinder\<close> is a variable of the module: it is assigned once, the first
  time it is found unset, and by nothing else.
\<close>

definition findIgnoreFiles ::
  "('h, 'c, 'l) env \<Rightarrow> path \<Rightarrow> 'l state \<Rightarrow> (js_error + path list) \<times> 'l state" where
  "findIgnoreFiles env dir st =
     (let (finder, st1) =
            (case ignoreFileFinder st of
               None \<Rightarrow>
                 (\<lparr>fileName = ESLINT_IGNORE_FILENAME, cache = Map.empty\<rparr>,
                  emit (ENewFileFinder ESLINT_IGNORE_FILENAME)
                    (st\<lparr>ignoreFileFinder :=
                          Some \<lparr>fileName = ESLINT_IGNORE_FILENAME, cache = Map.empty\<rparr>\<rparr>))
             | Some existing \<Rightarrow> (existing, st));
          (found, finder', st2) = findAll env finder dir st1
      in (found, st2\<lparr>ignoreFileFinder := Some finder'\<rparr>))"

section \<open>executeOnDirectory\<close>

text \<open>
  The \<^verbatim>\<open>child\<close> handler, run for the stream's entries in the order they are emitted.
  An exception of \<open>processFile\<close> leaves the handler: nothing in the module catches it.
\<close>

fun onChildren ::
  "('h, 'c, 'l) env \<Rightarrow> 'h \<Rightarrow> path list \<Rightarrow> lint_result list \<Rightarrow> 'l state
     \<Rightarrow> (js_error + lint_result list) \<times> 'l state" where
  "onChildren env configHelper [] rs st = (Inr rs, st)"
| "onChildren env configHelper (c # cs) rs st =
     (let st1 = emit (EChild c) st
      in if extname c = ''.js'' then
           (case processFile env c configHelper st1 of
              (Inl err, st2) \<Rightarrow> (Inl err, st2)
            | (Inr r, st2) \<Rightarrow> onChildren env configHelper cs (rs @ [r]) st2)
         else onChildren env configHelper cs rs st1)"

text \<open>
  The three handlers on one stream: the children, then \<^verbatim>\<open>cb(err)\<close> on \<^verbatim>\<open>error\<close> or
  \<^verbatim>\<open>cb(null, results)\<close> on \<^verbatim>\<open>end\<close>.
\<close>

definition onStream ::
  "('h, 'c, 'l) env \<Rightarrow> 'h \<Rightarrow> ignore_stream \<Rightarrow> (cb_args \<Rightarrow> 'l state \<Rightarrow> 'l state)
     \<Rightarrow> 'l state \<Rightarrow> 'l state" where
  "onStream env configHelper s cb st =
     (case onChildren env configHelper (children s) [] st of
        (Inl err, st1) \<Rightarrow> emit (EUncaught err) st1
      | (Inr rs, st1) \<Rightarrow>
          (case failure s of
             Some err \<Rightarrow> cb (CbErr err) st1
           | None \<Rightarrow> cb (CbOk rs) st1))"

text \<open>
  The callbacks of \<^verbatim>\<open>addIgnoreFile\<close>, one per file: each increments \<^verbatim>\<open>counter\<close>, and
  the one that reaches the number of files resumes the stream.
\<close>

fun addIgnoreFileCallbacks :: "path list \<Rightarrow> nat \<Rightarrow> nat \<Rightarrow> 'l state \<Rightarrow> 'l state" where
  "addIgnoreFileCallbacks [] n counter st = st"
| "addIgnoreFileCallbacks (f # fs) n counter st =
     addIgnoreFileCallbacks fs n (counter + 1)
       (if counter + 1 = n then emit EResume st else st)"

text \<open>
  The stream is created, and its handlers are attached, before the ancestors' ignore
  files are looked for. When that search throws, the \<^verbatim>\<open>catch\<close> calls \<^verbatim>\<open>cb(err)\<close> and
  returns; the stream is neither paused nor closed there, so its events still reach the
  handlers, with no ancestor file added.
\<close>

definition executeOnDirectory ::
  "('h, 'c, 'l) env \<Rightarrow> path \<Rightarrow> 'h \<Rightarrow> (cb_args \<Rightarrow> 'l state \<Rightarrow> 'l state)
     \<Rightarrow> 'l state \<Rightarrow> 'l state" where
  "executeOnDirectory env dir configHelper cb st =
     (let st1 = emit (ENewIgnore dir) st
      in case findIgnoreFiles env (resolve env [dir, ''..'']) st1 of
           (Inl err, st2) \<Rightarrow>
             onStream env configHelper (ignoreStream env dir []) cb (cb (CbErr err) st2)
         | (Inr ignoreFilesInParentDirs, st2) \<Rightarrow>
             if length ignoreFilesInParentDirs \<noteq> 0 then
               (let st3 = emit EPause st2;
                    st4 = fold (\<lambda>file. emit (EAddIgnoreFile file)) ignoreFilesInParentDirs st3;
                    st5 = addIgnoreFileCallbacks ignoreFilesInParentDirs
                            (length ignoreFilesInParentDirs) 0 st4
                in onStream env configHelper (ignoreStream env dir ignoreFilesInParentDirs) cb st5)
             else onStream env configHelper (ignoreStream env dir []) cb st2)"

section \<open>executeOnFileOrDirectory\<close>

definition executeOnFileOrDirectory ::
  "('h, 'c, 'l) env \<Rightarrow> path \<Rightarrow> 'h \<Rightarrow> (cb_args \<Rightarrow> 'l state \<Rightarrow> 'l state)
     \<Rightarrow> 'l state \<Rightarrow> 'l state" where
  "executeOnFileOrDirectory env file configHelper cb st =
     (let st1 = emit (EStat file) st
      in case stat env file of
           Inl err \<Rightarrow> cb (CbErr err) st1
         | Inr isDirectory \<Rightarrow>
             if \<not> isDirectory then
               (case processFile env file configHelper st1 of
                  (Inl err, st2) \<Rightarrow> emit (EUncaught err) st2
                | (Inr r, st2) \<Rightarrow> cb (CbOk [r]) st2)
             else executeOnDirectory env file configHelper cb st1)"

section \<open>The engine\<close>

definition defaultOptions :: "string \<rightharpoonup> jsval" where
  "defaultOptions = map_of
     [(''configFile'', JNull),
      (''reset'', JBool False),
      (''rulePaths'', JArray []),
      (''useEslintrc'', JBool True),
      (''envs'', JArray []),
      (''globals'', JArray []),
      (''rules'', JObject []),
      (''ignore'', JBool True),
      (''ignorePath'', JNull)]"

definition Object_create :: "(string \<rightharpoonup> jsval) \<Rightarrow> js_object" where
  "Object_create p = \<lparr>own = Map.empty, proto = p\<rparr>"

text \<open>\<^verbatim>\<open>object-assign\<close>: every own property of the source is set on the target.\<close>

definition assign :: "js_object \<Rightarrow> (string \<rightharpoonup> jsval) \<Rightarrow> js_object" where
  "assign target source = target\<lparr>own := own target ++ source\<rparr>"

text \<open>Reading a property: the object's own one, else the prototype's, else undefined.\<close>

definition getProp :: "js_object \<Rightarrow> string \<Rightarrow> jsval" where
  "getProp obj k =
     (case own obj k of
        Some v \<Rightarrow> v
      | None \<Rightarrow> (case proto obj k of Some v \<Rightarrow> v | None \<Rightarrow> JUndefined))"

fun truthy :: "jsval \<Rightarrow> bool" where
  "truthy JUndefined = False"
| "truthy JNull = False"
| "truthy (JBool b) = b"
| "truthy (JString s) = (s \<noteq> [])"
| "truthy (JArray _) = True"
| "truthy (JObject _) = True"

text \<open>\<^verbatim>\<open>rulePaths.forEach\<close>: the first \<^verbatim>\<open>rules.load\<close> that throws ends the loop.\<close>

fun loadRules ::
  "('h, 'c, 'l) env \<Rightarrow> jsval list \<Rightarrow> 'l state \<Rightarrow> js_error option \<times> 'l state" where
  "loadRules env [] st = (None, st)"
| "loadRules env (rulesdir # rest) st =
     (let st1 = emit (ERulesLoad rulesdir) st
      in case rulesLoad env rulesdir of
           Some err \<Rightarrow> (Some err, st1)
         | None \<Rightarrow> loadRules env rest st1)"

text \<open>
  The constructor. \<open>None\<close> is a call without options (\<^verbatim>\<open>options || {}\<close>). A
  \<^verbatim>\<open>rulePaths\<close> that is truthy and not an array has no \<^verbatim>\<open>forEach\<close>: a TypeError.
\<close>

definition CLIEngine ::
  "('h, 'c, 'l) env \<Rightarrow> (string \<rightharpoonup> jsval) option \<Rightarrow> 'l state
     \<Rightarrow> (js_error + cli_engine) \<times> 'l state" where
  "CLIEngine env opts st =
     (let engine = \<lparr>options = assign (Object_create defaultOptions)
                                (case opts of None \<Rightarrow> Map.empty | Some given \<Rightarrow> given)\<rparr>
      in if truthy (getProp (options engine) ''rulePaths'') then
           (case getProp (options engine) ''rulePaths'' of
              JArray rulePaths \<Rightarrow>
                (case loadRules env rulePaths st of
                   (Some err, st1) \<Rightarrow> (Inl err, st1)
                 | (None, st1) \<Rightarrow> (Inr engine, st1))
            | _ \<Rightarrow> (Inl (TypeError ''undefined is not a function''), st))
         else (Inr engine, st))"

text \<open>
  \<^verbatim>\<open>next\<close> and the callback it hands to \<open>executeOnFileOrDirectory\<close>. The caller's
  array is the field \<open>files\<close> of the state, and \<^verbatim>\<open>files.shift()\<close> stores its tail there;
  the list argument is the content of that array when \<^verbatim>\<open>next\<close> is entered.
\<close>

fun "next" :: "('h, 'c, 'l) env \<Rightarrow> 'h \<Rightarrow> path list \<Rightarrow> 'l state \<Rightarrow> 'l state" where
  "next env configHelper [] st = emit (ECallback (CbOk (results st))) st"
| "next env configHelper (file # rest) st =
     executeOnFileOrDirectory env file configHelper
       (\<lambda>args st'.
          case args of
            CbErr err \<Rightarrow> emit (ECallback (CbErr err)) st'
          | CbOk res \<Rightarrow> next env configHelper rest (st'\<lparr>results := results st' @ res\<rparr>))
       (st\<lparr>files := rest\<rparr>)"

definition executeOnFiles :: "('h, 'c, 'l) env \<Rightarrow> path list \<Rightarrow> 'l state \<Rightarrow> 'l state" where
  "executeOnFiles env targets st =
     (let configHelper = newConfig env (options (this st));
          st1 = emit (ENewConfig (options (this st))) (st\<lparr>files := targets, results := []\<rparr>)
      in next env configHelper targets st1)"

text \<open>The invocations of the caller's callback, in order.\<close>

fun callbacks :: "event list \<Rightarrow> cb_args list" where
  "callbacks [] = []"
| "callbacks (ECallback a # es) = a # callbacks es"
| "callbacks (_ # es) = callbacks es"

text \<open>
  Other projections of a log: the targets stat'ed, the locators constructed and the
  calls of \<^verbatim>\<open>eslint.reset()\<close>, one per call of \<open>processFile\<close>.
\<close>

fun stats :: "event list \<Rightarrow> path list" where
  "stats [] = []"
| "stats (EStat p # es) = p # stats es"
| "stats (_ # es) = stats es"

fun newFinders :: "event list \<Rightarrow> nat" where
  "newFinders [] = 0"
| "newFinders (ENewFileFinder name # es) = Suc (newFinders es)"
| "newFinders (_ # es) = newFinders es"

fun resets :: "event list \<Rightarrow> nat" where
  "resets [] = 0"
| "resets (EReset # es) = Suc (resets es)"
| "resets (_ # es) = resets es"

text \<open>
  And for the walk: the entries the \<^verbatim>\<open>child\<close> handler was given, the paths
  \<open>processFile\<close> looked up (one \<^verbatim>\<open>fs.existsSync\<close> per call), and the exceptions that
  escaped.
\<close>

fun seen :: "event list \<Rightarrow> path list" where
  "seen [] = []"
| "seen (EChild c # es) = c # seen es"
| "seen (_ # es) = seen es"

fun checked :: "event list \<Rightarrow> path list" where
  "checked [] = []"
| "checked (EExistsSync p # es) = p # checked es"
| "checked (_ # es) = checked es"

fun uncaught :: "event list \<Rightarrow> js_error list" where
  "uncaught [] = []"
| "uncaught (EUncaught err # es) = err # uncaught es"
| "uncaught (_ # es) = uncaught es"

text \<open>What a computation appended to the log of the state it started from.\<close>

definition since :: "'l state \<Rightarrow> 'l state \<Rightarrow> event list" where
  "since st st' = drop (length (log st)) (log st')"

definition eventsOf :: "('h, 'c, 'l) env \<Rightarrow> path list \<Rightarrow> 'l state \<Rightarrow> event list" where
  "eventsOf env targets st = since st (executeOnFiles env targets st)"

section \<open>The dispatch of one target, up to its last call of the callback\<close>

text \<open>
  For the proofs, the three functions that take \<^verbatim>\<open>cb\<close> are read once more with their
  last call of \<^verbatim>\<open>cb\<close> returned instead of made: the arguments of that call (\<open>None\<close>
  when an exception escaped instead) and the state in which it is made. The call
  \<^verbatim>\<open>cb(err)\<close> of the \<^verbatim>\<open>catch\<close> is not a last call; it is made through \<open>onErr\<close>.
  The lemmas \<open>onStream_last\<close>, \<open>executeOnDirectory_last\<close> and
  \<open>executeOnFileOrDirectory_last\<close> below say that making the returned call gives
  the functions above.
\<close>

definition onStreamLast ::
  "('h, 'c, 'l) env \<Rightarrow> 'h \<Rightarrow> ignore_stream \<Rightarrow> 'l state \<Rightarrow> cb_args option \<times> 'l state" where
  "onStreamLast env configHelper s st =
     (case onChildren env configHelper (children s) [] st of
        (Inl err, st1) \<Rightarrow> (None, emit (EUncaught err) st1)
      | (Inr rs, st1) \<Rightarrow>
          (case failure s of
             Some err \<Rightarrow> (Some (CbErr err), st1)
           | None \<Rightarrow> (Some (CbOk rs), st1)))"

definition executeOnDirectoryLast ::
  "('h, 'c, 'l) env \<Rightarrow> path \<Rightarrow> 'h \<Rightarrow> (js_error \<Rightarrow> 'l state \<Rightarrow> 'l state)
     \<Rightarrow> 'l state \<Rightarrow> cb_args option \<times> 'l state" where
  "executeOnDirectoryLast env dir configHelper onErr st =
     (let st1 = emit (ENewIgnore dir) st
      in case findIgnoreFiles env (resolve env [dir, ''..'']) st1 of
           (Inl err, st2) \<Rightarrow>
             onStreamLast env configHelper (ignoreStream env dir []) (onErr err st2)
         | (Inr ignoreFilesInParentDirs, st2) \<Rightarrow>
             if length ignoreFilesInParentDirs \<noteq> 0 then
               (let st3 = emit EPause st2;
                    st4 = fold (\<lambda>file. emit (EAddIgnoreFile file)) ignoreFilesInParentDirs st3;
                    st5 = addIgnoreFileCallbacks ignoreFilesInParentDirs
                            (length ignoreFilesInParentDirs) 0 st4
                in onStreamLast env configHelper (ignoreStream env dir ignoreFilesInParentDirs) st5)
             else onStreamLast env configHelper (ignoreStream env dir []) st2)"

definition executeOnFileOrDirectoryLast ::
  "('h, 'c, 'l) env \<Rightarrow> path \<Rightarrow> 'h \<Rightarrow> (js_error \<Rightarrow> 'l state \<Rightarrow> 'l state)
     \<Rightarrow> 'l state \<Rightarrow> cb_args option \<times> 'l state" where
  "executeOnFileOrDirectoryLast env file configHelper onErr st =
     (let st1 = emit (EStat file) st
      in case stat env file of
           Inl err \<Rightarrow> (Some (CbErr err), st1)
         | Inr isDirectory \<Rightarrow>
             if \<not> isDirectory then
               (case processFile env file configHelper st1 of
                  (Inl err, st2) \<Rightarrow> (None, emit (EUncaught err) st2)
                | (Inr r, st2) \<Rightarrow> (Some (CbOk [r]), st2))
             else executeOnDirectoryLast env file configHelper onErr st1)"

text \<open>The dispatch as \<^verbatim>\<open>next\<close> starts it: an error goes to the caller's callback.\<close>

definition dispatch ::
  "('h, 'c, 'l) env \<Rightarrow> 'h \<Rightarrow> path \<Rightarrow> 'l state \<Rightarrow> cb_args option \<times> 'l state" where
  "dispatch env configHelper file st =
     executeOnFileOrDirectoryLast env file configHelper
       (\<lambda>err. emit (ECallback (CbErr err))) st"

text \<open>
  The part of a state that a dispatch reads, and a state put back under the array, the
  accumulator, the engine and the log of another.
\<close>

definition core :: "'l state \<Rightarrow> 'l state" where
  "core st = st\<lparr>files := [], results := [], log := []\<rparr>"

definition rebase :: "'l state \<Rightarrow> 'l state \<Rightarrow> 'l state" where
  "rebase st s =
     s\<lparr>this := this st, files := files st, results := results st, log := log st @ log s\<rparr>"

text \<open>
  For the locator: the number of locators a log shows constructed, plus one while the
  module variable is still unset; and what it means that a later value of the module
  variable keeps an earlier one (the same file name, and every cached answer still there).
\<close>

definition potential :: "'l state \<Rightarrow> nat" where
  "potential st =
     newFinders (log st) + (case ignoreFileFinder st of None \<Rightarrow> 1 | Some _ \<Rightarrow> 0)"

definition keeps :: "file_finder option \<Rightarrow> file_finder option \<Rightarrow> bool" where
  "keeps a b =
     (case a of
        None \<Rightarrow> True
      | Some ff \<Rightarrow>
          (\<exists>ff'. b = Some ff' \<and> fileName ff' = fileName ff \<and> cache ff \<subseteq>\<^sub>m cache ff'))"

section \<open>A filesystem to run the engine on\<close>

text \<open>
  The working directory \<^verbatim>\<open>/w\<close> holds \<^verbatim>\<open>a.js\<close>, \<^verbatim>\<open>.eslintignore\<close> and the directory
  \<^verbatim>\<open>lib\<close> with \<^verbatim>\<open>x.js\<close> and \<^verbatim>\<open>notes.txt\<close>. The linter counts the files it has
  verified since its last reset and reports the text it was given.
\<close>

definition exampleEnv :: "(js_object, string, nat) env" where
  "exampleEnv =
     \<lparr>resolve = (\<lambda>ps. case ps of
                         [p] \<Rightarrow> (if take 1 p = ''/'' then p else ''/w/'' @ p)
                       | _ \<Rightarrow> ''/w''),
      stat = (\<lambda>p. if p = ''a.js'' \<or> p = ''/w/a.js'' \<or> p = ''/w/lib/x.js'' then Inr False
                   else if p = ''lib'' \<or> p = ''/w/lib'' then Inr True
                   else Inl (ENOENT p)),
      readFileSync = (\<lambda>p. if p = ''/w/a.js'' then Inr ''var a;''
                           else if p = ''/w/lib/x.js'' then Inr ''var x;''
                           else Inl (ENOENT p)),
      ignoreStream = (\<lambda>dir added.
                        if dir = ''lib'' then
                          \<lparr>children = [''/w/lib/x.js'', ''/w/lib/notes.txt''], failure = None\<rparr>
                        else \<lparr>children = [], failure = Some (ENOENT dir)\<rparr>),
      scan = (\<lambda>name dir. if dir = ''/w'' then Inr [''/w/.eslintignore''] else Inr []),
      rulesLoad = (\<lambda>rulesdir. None),
      newConfig = (\<lambda>opts. opts),
      getConfig = (\<lambda>helper p. ''eslint.json''),
      cleared = 0,
      verify = (\<lambda>l text config p. ([\<lparr>fatal = False, message = text\<rparr>], l + 1))\<rparr>"

definition exampleState :: "nat state" where
  "exampleState =
     \<lparr>linter = 5, ignoreFileFinder = None,
      this = \<lparr>options = Object_create defaultOptions\<rparr>,
      files = [], results = [], log = []\<rparr>"

text \<open>The same filesystem with the parent of \<^verbatim>\<open>lib\<close> unreadable to the locator.\<close>

definition unreadableParentEnv :: "(js_object, string, nat) env" where
  "unreadableParentEnv = exampleEnv\<lparr>scan := (\<lambda>name dir. Inl (EACCES dir))\<rparr>"

text \<open>The same filesystem with a directory \<^verbatim>\<open>lib/sub\<close> that the walk cannot read.\<close>

definition brokenWalkEnv :: "(js_object, string, nat) env" where
  "brokenWalkEnv =
     exampleEnv\<lparr>ignoreStream :=
                  (\<lambda>dir added. \<lparr>children = [''/w/lib/x.js''],
                                 failure = Some (EACCES ''/w/lib/sub'')\<rparr>)\<rparr>"

text \<open>
  The same filesystem with one more entry in \<^verbatim>\<open>lib\<close>: a directory named
  \<^verbatim>\<open>chart.js\<close>, which \<^verbatim>\<open>fs.readFileSync\<close> refuses to read.
\<close>

definition jsDirectoryEnv :: "(js_object, string, nat) env" where
  "jsDirectoryEnv =
     exampleEnv
       \<lparr>stat := (\<lambda>p. if p = ''/w/lib/chart.js'' then Inr True else stat exampleEnv p),
        readFileSync := (\<lambda>p. if p = ''/w/lib/chart.js'' then Inl (EISDIR p)
                              else readFileSync exampleEnv p),
        ignoreStream := (\<lambda>dir added.
                           \<lparr>children = [''/w/lib/chart.js'', ''/w/lib/x.js'',
                                        ''/w/lib/notes.txt''],
                            failure = None\<rparr>)\<rparr>"

text \<open>
  The example filesystem with \<^verbatim>\<open>/w/.eslintignore\<close> listing \<^verbatim>\<open>lib/x.js\<close>: the stream
  of \<^verbatim>\<open>lib\<close> leaves \<^verbatim>\<open>x.js\<close> out once that file is added to it. And the same with the
  root directory unreadable to the locator.
\<close>

definition patternEnv :: "(js_object, string, nat) env" where
  "patternEnv =
     exampleEnv
       \<lparr>ignoreStream :=
          (\<lambda>dir added.
             if ''/w/.eslintignore'' \<in> set added then
               \<lparr>children = [''/w/lib/notes.txt''], failure = None\<rparr>
             else \<lparr>children = [''/w/lib/x.js'', ''/w/lib/notes.txt''], failure = None\<rparr>)\<rparr>"

definition patternUnreadableEnv :: "(js_object, string, nat) env" where
  "patternUnreadableEnv = patternEnv\<lparr>scan := (\<lambda>name dir. Inl (EACCES ''/''))\<rparr>"

text \<open>The same filesystem after \<^verbatim>\<open>/w/.eslintignore\<close> has been deleted.\<close>

definition laterEnv :: "(js_object, string, nat) env" where
  "laterEnv = exampleEnv\<lparr>scan := (\<lambda>name dir. Inr [])\<rparr>"

text \<open>Options a caller might pass to the constructor.\<close>

definition exampleOptions :: "string \<rightharpoonup> jsval" where
  "exampleOptions =
     map_of [(''reset'', JBool True), (''rulePaths'', JArray [JString ''myrules''])]"

text \<open>A second engine, constructed with those options.\<close>

definition secondEngine :: cli_engine where
  "secondEngine = \<lparr>options = assign (Object_create defaultOptions) exampleOptions\<rparr>"

section \<open>Properties: the state and the log\<close>

lemma emit_simps [simp]:
  "log (emit e st) = log st @ [e]"
  "linter (emit e st) = linter st"
  "ignoreFileFinder (emit e st) = ignoreFileFinder st"
  "this (emit e st) = this st"
  "files (emit e st) = files st"
  "results (emit e st) = results st"
  by (simp_all add: emit_def)

lemma rebase_simps [simp]:
  "log (rebase st s) = log st @ log s"
  "linter (rebase st s) = linter s"
  "ignoreFileFinder (rebase st s) = ignoreFileFinder s"
  "this (rebase st s) = this st"
  "files (rebase st s) = files st"
  "results (rebase st s) = results st"
  by (simp_all add: rebase_def)

lemma core_simps [simp]:
  "log (core st) = []"
  "linter (core st) = linter st"
  "ignoreFileFinder (core st) = ignoreFileFinder st"
  "this (core st) = this st"
  "files (core st) = []"
  "results (core st) = []"
  by (simp_all add: core_def)

lemma rebase_core_id: "rebase st (core st) = st"
  by (simp add: rebase_def core_def)

lemma core_updates [simp]:
  "core (st\<lparr>files := fs\<rparr>) = core st"
  "core (st\<lparr>results := rs\<rparr>) = core st"
  "core (st\<lparr>log := es\<rparr>) = core st"
  "core (emit e st) = core st"
  by (simp_all add: core_def emit_def)

lemma core_rebase: "this s = this st \<Longrightarrow> core (rebase st s) = core s"
  by (simp add: core_def rebase_def)

lemma core_eq_iff:
  "core st = core st' \<longleftrightarrow>
     linter st = linter st' \<and> ignoreFileFinder st = ignoreFileFinder st' \<and> this st = this st'
       \<and> state.more st = state.more st'"
  by (cases st, cases st') (simp add: core_def)

lemma rebase_emit: "emit e (rebase st s) = rebase st (emit e s)"
  by (simp add: emit_def rebase_def)

lemma rebase_linter: "(rebase st s)\<lparr>linter := l\<rparr> = rebase st (s\<lparr>linter := l\<rparr>)"
  by (simp add: rebase_def)

lemma rebase_finder:
  "(rebase st s)\<lparr>ignoreFileFinder := f\<rparr> = rebase st (s\<lparr>ignoreFileFinder := f\<rparr>)"
  by (simp add: rebase_def)

section \<open>Properties: a dispatch reads the linter and the locator only\<close>

text \<open>
  Each function does to a rebased state what it does to the state itself: it leaves the
  array, the accumulator and the engine alone, and it only appends to the log.
\<close>

lemma processFile_rebase:
  "processFile env f h (rebase st s) = map_prod id (rebase st) (processFile env f h s)"
  by (simp add: processFile_def Let_def rebase_emit rebase_linter
        split: sum.splits prod.splits)

lemma findAll_rebase:
  "findAll env ff dir (rebase st s)
     = map_prod id (map_prod id (rebase st)) (findAll env ff dir s)"
  by (simp add: findAll_def Let_def rebase_emit split: option.splits sum.splits)

lemma findIgnoreFiles_rebase:
  "findIgnoreFiles env dir (rebase st s)
     = map_prod id (rebase st) (findIgnoreFiles env dir s)"
  by (simp add: findIgnoreFiles_def Let_def rebase_emit rebase_finder findAll_rebase
        split: option.splits prod.splits)

lemma onChildren_rebase:
  "onChildren env h cs rs (rebase st s)
     = map_prod id (rebase st) (onChildren env h cs rs s)"
  by (induction cs arbitrary: rs s)
     (simp_all add: Let_def rebase_emit processFile_rebase split: sum.splits prod.splits)

lemma onStreamLast_rebase:
  "onStreamLast env h str (rebase st s)
     = map_prod id (rebase st) (onStreamLast env h str s)"
  by (simp add: onStreamLast_def onChildren_rebase rebase_emit
        split: sum.splits prod.splits option.splits)

lemma addIgnoreFileCallbacks_rebase:
  "addIgnoreFileCallbacks fs n c (rebase st s)
     = rebase st (addIgnoreFileCallbacks fs n c s)"
  by (induction fs arbitrary: c s) (simp_all add: rebase_emit)

lemma fold_emit_rebase:
  "fold (\<lambda>file. emit (g file)) fs (rebase st s)
     = rebase st (fold (\<lambda>file. emit (g file)) fs s)"
  by (induction fs arbitrary: s) (simp_all add: rebase_emit)

lemma executeOnDirectoryLast_rebase:
  assumes "\<And>e s. onErr e (rebase st s) = rebase st (onErr e s)"
  shows "executeOnDirectoryLast env d h onErr (rebase st s)
           = map_prod id (rebase st) (executeOnDirectoryLast env d h onErr s)"
proof -
  obtain r s2
    where F: "findIgnoreFiles env (resolve env [d, ''..'']) (emit (ENewIgnore d) s) = (r, s2)"
    by fastforce
  show ?thesis
    using assms
    by (cases r)
       (simp_all add: executeOnDirectoryLast_def Let_def rebase_emit findIgnoreFiles_rebase F
          onStreamLast_rebase addIgnoreFileCallbacks_rebase fold_emit_rebase)
qed

lemma dispatch_rebase:
  "dispatch env h f (rebase st s) = map_prod id (rebase st) (dispatch env h f s)"
proof -
  obtain r s2 where P: "processFile env f h (emit (EStat f) s) = (r, s2)"
    by fastforce
  show ?thesis
    by (cases r)
       (simp_all add: dispatch_def executeOnFileOrDirectoryLast_def Let_def rebase_emit
          processFile_rebase P executeOnDirectoryLast_rebase split: sum.splits)
qed

lemma dispatch_core:
  "dispatch env h f st = map_prod id (rebase st) (dispatch env h f (core st))"
  using dispatch_rebase [of env h f st "core st"] by (simp add: rebase_core_id)

section \<open>Properties: the last call of the callback\<close>

lemma onStream_last:
  "onStream env h s cb st =
     (case onStreamLast env h s st of (None, st') \<Rightarrow> st' | (Some a, st') \<Rightarrow> cb a st')"
  by (simp add: onStream_def onStreamLast_def split: sum.splits prod.splits option.splits)

lemma executeOnDirectory_last:
  "executeOnDirectory env d h cb st =
     (case executeOnDirectoryLast env d h (\<lambda>err. cb (CbErr err)) st of
        (None, st') \<Rightarrow> st'
      | (Some a, st') \<Rightarrow> cb a st')"
  by (simp add: executeOnDirectory_def executeOnDirectoryLast_def onStream_last Let_def
        split: sum.splits prod.splits option.splits)

lemma executeOnFileOrDirectory_last:
  "executeOnFileOrDirectory env f h cb st =
     (case executeOnFileOrDirectoryLast env f h (\<lambda>err. cb (CbErr err)) st of
        (None, st') \<Rightarrow> st'
      | (Some a, st') \<Rightarrow> cb a st')"
  by (simp add: executeOnFileOrDirectory_def executeOnFileOrDirectoryLast_def
        executeOnDirectory_last Let_def split: sum.splits prod.splits option.splits)

lemma next_Cons:
  "next env h (f # rest) st =
     (case dispatch env h f (st\<lparr>files := rest\<rparr>) of
        (None, s) \<Rightarrow> s
      | (Some (CbErr err), s) \<Rightarrow> emit (ECallback (CbErr err)) s
      | (Some (CbOk res), s) \<Rightarrow> next env h rest (s\<lparr>results := results s @ res\<rparr>))"
  by (simp add: executeOnFileOrDirectory_last dispatch_def
        split: prod.splits option.splits cb_args.splits)

section \<open>Properties: what each function appends to the log\<close>

lemma callbacks_append [simp]: "callbacks (xs @ ys) = callbacks xs @ callbacks ys"
  by (induction xs rule: callbacks.induct) simp_all

lemma stats_append [simp]: "stats (xs @ ys) = stats xs @ stats ys"
  by (induction xs rule: stats.induct) simp_all

lemma newFinders_append [simp]: "newFinders (xs @ ys) = newFinders xs + newFinders ys"
  by (induction xs rule: newFinders.induct) simp_all

lemma resets_append [simp]: "resets (xs @ ys) = resets xs + resets ys"
  by (induction xs rule: resets.induct) simp_all

lemma processFile_log:
  "processFile env f h st = (r, s) \<Longrightarrow>
   callbacks (log s) = callbacks (log st) \<and> stats (log s) = stats (log st)
   \<and> newFinders (log s) = newFinders (log st) \<and> resets (log s) = Suc (resets (log st))
   \<and> ignoreFileFinder s = ignoreFileFinder st"
  by (auto simp: processFile_def Let_def split: if_splits sum.splits prod.splits)

lemma processFile_filePath:
  "processFile env f h st = (Inr r, s) \<Longrightarrow> filePath r = f"
  by (auto simp: processFile_def Let_def split: if_splits sum.splits prod.splits)

lemma onChildren_log:
  "onChildren env h cs rs st = (r, s) \<Longrightarrow>
   callbacks (log s) = callbacks (log st) \<and> stats (log s) = stats (log st)
   \<and> newFinders (log s) = newFinders (log st) \<and> ignoreFileFinder s = ignoreFileFinder st"
proof (induction cs arbitrary: rs st)
  case Nil
  then show ?case by simp
next
  case (Cons c cs)
  show ?case
  proof (cases "extname c = ''.js''")
    case False
    with Cons.prems have "onChildren env h cs rs (emit (EChild c) st) = (r, s)"
      by (simp add: Let_def)
    from Cons.IH [OF this] show ?thesis by simp
  next
    case True
    obtain pr ps where P: "processFile env c h (emit (EChild c) st) = (pr, ps)"
      by fastforce
    note L = processFile_log [OF P]
    show ?thesis
    proof (cases pr)
      case (Inl err)
      with Cons.prems True P have "s = ps" by (simp add: Let_def)
      with L show ?thesis by simp
    next
      case (Inr res)
      with Cons.prems True P have "onChildren env h cs (rs @ [res]) ps = (r, s)"
        by (simp add: Let_def)
      from Cons.IH [OF this] L show ?thesis by simp
    qed
  qed
qed

lemma onChildren_results:
  "onChildren env h cs rs st = (Inr rs', s) \<Longrightarrow>
   map filePath rs' = map filePath rs @ filter (\<lambda>c. extname c = ''.js'') cs
   \<and> resets (log s) = resets (log st) + length (filter (\<lambda>c. extname c = ''.js'') cs)"
proof (induction cs arbitrary: rs st)
  case Nil
  then show ?case by simp
next
  case (Cons c cs)
  show ?case
  proof (cases "extname c = ''.js''")
    case False
    with Cons.prems have "onChildren env h cs rs (emit (EChild c) st) = (Inr rs', s)"
      by (simp add: Let_def)
    from Cons.IH [OF this] False show ?thesis by simp
  next
    case True
    obtain pr ps where P: "processFile env c h (emit (EChild c) st) = (pr, ps)"
      by fastforce
    note L = processFile_log [OF P]
    show ?thesis
    proof (cases pr)
      case (Inl err)
      with Cons.prems True P show ?thesis by (simp add: Let_def)
    next
      case (Inr res)
      with Cons.prems True P have "onChildren env h cs (rs @ [res]) ps = (Inr rs', s)"
        by (simp add: Let_def)
      from Cons.IH [OF this] L True processFile_filePath [of env c h _ res ps] P Inr
      show ?thesis by simp
    qed
  qed
qed

lemma findAll_log:
  "findAll env ff dir st = (r, ff', s) \<Longrightarrow>
   callbacks (log s) = callbacks (log st) \<and> stats (log s) = stats (log st)
   \<and> newFinders (log s) = newFinders (log st) \<and> resets (log s) = resets (log st)
   \<and> fileName ff' = fileName ff \<and> cache ff \<subseteq>\<^sub>m cache ff'"
  by (auto simp: findAll_def Let_def map_le_def split: option.splits sum.splits)

lemma findIgnoreFiles_log:
  "findIgnoreFiles env dir st = (r, s) \<Longrightarrow>
   callbacks (log s) = callbacks (log st) \<and> stats (log s) = stats (log st)
   \<and> resets (log s) = resets (log st)
   \<and> potential s = potential st \<and> keeps (ignoreFileFinder st) (ignoreFileFinder s)"
  apply (cases "ignoreFileFinder st")
   apply (auto simp: findIgnoreFiles_def Let_def potential_def keeps_def split: prod.splits dest!: findAll_log)
  done


lemma potential_emit [simp]:
  "potential (emit e st) = potential st + newFinders [e]"
  by (simp add: potential_def)

lemma keeps_refl [simp]: "keeps a a"
  by (simp add: keeps_def split: option.splits)

lemma keeps_trans: "keeps a b \<Longrightarrow> keeps b c \<Longrightarrow> keeps a c"
  by (auto simp: keeps_def split: option.splits intro: map_le_trans)

lemma addIgnoreFileCallbacks_log:
  "callbacks (log (addIgnoreFileCallbacks fs n c st)) = callbacks (log st)
   \<and> stats (log (addIgnoreFileCallbacks fs n c st)) = stats (log st)
   \<and> resets (log (addIgnoreFileCallbacks fs n c st)) = resets (log st)
   \<and> potential (addIgnoreFileCallbacks fs n c st) = potential st
   \<and> ignoreFileFinder (addIgnoreFileCallbacks fs n c st) = ignoreFileFinder st"
  by (induction fs arbitrary: c st) simp_all

lemma addIgnoreFileCallbacks_resumes_once:
  "counter + length fs = n \<Longrightarrow>
   log (addIgnoreFileCallbacks fs n counter st)
     = log st @ (if fs = [] then [] else [EResume])"
proof (induction fs arbitrary: counter st)
  case Nil
  then show ?case by simp
next
  case (Cons f fs)
  from Cons.prems have "Suc counter + length fs = n" by simp
  from Cons.IH [OF this] Cons.prems show ?case
    by (cases fs) auto
qed

lemma fold_addIgnoreFile_log:
  "callbacks (log (fold (\<lambda>file. emit (EAddIgnoreFile file)) fs st)) = callbacks (log st)
   \<and> stats (log (fold (\<lambda>file. emit (EAddIgnoreFile file)) fs st)) = stats (log st)
   \<and> resets (log (fold (\<lambda>file. emit (EAddIgnoreFile file)) fs st)) = resets (log st)
   \<and> potential (fold (\<lambda>file. emit (EAddIgnoreFile file)) fs st) = potential st
   \<and> ignoreFileFinder (fold (\<lambda>file. emit (EAddIgnoreFile file)) fs st) = ignoreFileFinder st"
  by (induction fs arbitrary: st) simp_all

lemma onChildren_potential:
  "onChildren env h cs rs st = (r, s) \<Longrightarrow> potential s = potential st"
  by (drule onChildren_log) (simp add: potential_def)

lemma onStreamLast_log:
  assumes "onStreamLast env h str st = (fin, s)"
  shows "callbacks (log s) = callbacks (log st)" "stats (log s) = stats (log st)"
    "potential s = potential st" "ignoreFileFinder s = ignoreFileFinder st"
    "fin = Some (CbOk res) \<Longrightarrow>
       map filePath res = filter (\<lambda>c. extname c = ''.js'') (children str)
       \<and> resets (log s) = resets (log st) + length res"
proof -
  obtain r s1 where C: "onChildren env h (children str) [] st = (r, s1)"
    by fastforce
  note L = onChildren_log [OF C] onChildren_potential [OF C]
  from assms C L show "callbacks (log s) = callbacks (log st)" "stats (log s) = stats (log st)"
    "potential s = potential st" "ignoreFileFinder s = ignoreFileFinder st"
    by (auto simp: onStreamLast_def split: sum.splits option.splits)
  assume "fin = Some (CbOk res)"
  with assms C have R: "r = Inr res" "s = s1"
    by (auto simp: onStreamLast_def split: sum.splits option.splits)
  from onChildren_results [of env h "children str" "[]" st res s1] C R
  have "map filePath res = filter (\<lambda>c. extname c = ''.js'') (children str)"
    "resets (log s) = resets (log st) + length (filter (\<lambda>c. extname c = ''.js'') (children str))"
    by simp_all
  then show "map filePath res = filter (\<lambda>c. extname c = ''.js'') (children str)
       \<and> resets (log s) = resets (log st) + length res"
    by (metis length_map)
qed

lemma executeOnDirectoryLast_log:
  assumes "executeOnDirectoryLast env d h (\<lambda>err. emit (ECallback (CbErr err))) st = (fin, s)"
  shows "\<exists>errs. callbacks (log s) = callbacks (log st) @ map CbErr errs"
    "stats (log s) = stats (log st)"
    "potential s = potential st" "keeps (ignoreFileFinder st) (ignoreFileFinder s)"
    "fin = Some (CbOk res) \<Longrightarrow>
       (\<exists>igs. map filePath res = filter (\<lambda>c. extname c = ''.js'') (children (ignoreStream env d igs)))
       \<and> resets (log s) = resets (log st) + length res"
proof -
  obtain r s2
    where F: "findIgnoreFiles env (resolve env [d, ''..'']) (emit (ENewIgnore d) st) = (r, s2)"
    by fastforce
  note FL = findIgnoreFiles_log [OF F]
  show "\<exists>errs. callbacks (log s) = callbacks (log st) @ map CbErr errs"
  proof (cases r)
    case (Inl err)
    with assms F have "onStreamLast env h (ignoreStream env d []) (emit (ECallback (CbErr err)) s2) = (fin, s)"
      by (simp add: executeOnDirectoryLast_def Let_def)
    from onStreamLast_log(1) [OF this] FL have "callbacks (log s) = callbacks (log st) @ map CbErr [err]"
      by simp
    then show ?thesis by blast
  next
    case (Inr igs)
    with assms F have "\<exists>s5 str. onStreamLast env h str s5 = (fin, s) \<and> callbacks (log s5) = callbacks (log s2)"
      by (auto simp: executeOnDirectoryLast_def Let_def addIgnoreFileCallbacks_log fold_addIgnoreFile_log split: if_splits)
    then obtain s5 str where "onStreamLast env h str s5 = (fin, s)" "callbacks (log s5) = callbacks (log s2)"
      by blast
    with onStreamLast_log(1) [OF this(1)] FL have "callbacks (log s) = callbacks (log st) @ map CbErr []"
      by simp
    then show ?thesis by blast
  qed
  show "stats (log s) = stats (log st)"
    using assms F FL
    by (cases r)
       (auto simp: executeOnDirectoryLast_def Let_def addIgnoreFileCallbacks_log fold_addIgnoreFile_log
          split: if_splits dest!: onStreamLast_log(2))
  show "potential s = potential st"
    using assms F FL
    by (cases r)
       (auto simp: executeOnDirectoryLast_def Let_def addIgnoreFileCallbacks_log fold_addIgnoreFile_log
          split: if_splits dest!: onStreamLast_log(3))
  show "keeps (ignoreFileFinder st) (ignoreFileFinder s)"
    using assms F FL
    by (cases r)
       (auto simp: executeOnDirectoryLast_def Let_def addIgnoreFileCallbacks_log fold_addIgnoreFile_log
          split: if_splits dest!: onStreamLast_log(4))
  assume O: "fin = Some (CbOk res)"
  show "(\<exists>igs. map filePath res = filter (\<lambda>c. extname c = ''.js'') (children (ignoreStream env d igs)))
       \<and> resets (log s) = resets (log st) + length res"
  proof (cases r)
    case (Inl err)
    with assms F have "onStreamLast env h (ignoreStream env d []) (emit (ECallback (CbErr err)) s2) = (fin, s)"
      by (simp add: executeOnDirectoryLast_def Let_def)
    from onStreamLast_log(5) [OF this O] FL show ?thesis by auto
  next
    case (Inr igs)
    with assms F have "\<exists>s5 igs. onStreamLast env h (ignoreStream env d igs) s5 = (fin, s) \<and> resets (log s5) = resets (log s2)"
      by (auto simp: executeOnDirectoryLast_def Let_def addIgnoreFileCallbacks_log fold_addIgnoreFile_log split: if_splits)
    then obtain s5 igs' where "onStreamLast env h (ignoreStream env d igs') s5 = (fin, s)" "resets (log s5) = resets (log s2)"
      by blast
    with onStreamLast_log(5) [OF this(1) O] FL show ?thesis by auto
  qed
qed

section \<open>Properties: one dispatch, and the loop over the targets\<close>

declare next.simps(2) [simp del]

lemma dispatch_frame:
  assumes "dispatch env h f st = (fin, s)"
  shows "this s = this st" "files s = files st" "results s = results st"
    "\<exists>evs. log s = log st @ evs"
proof -
  obtain fin0 s0 where D0: "dispatch env h f (core st) = (fin0, s0)"
    by fastforce
  with assms dispatch_core [of env h f st] have S: "s = rebase st s0"
    by simp
  show "this s = this st" "files s = files st" "results s = results st"
    "\<exists>evs. log s = log st @ evs"
    by (simp_all add: S)
qed

lemma dispatch_log:
  assumes "dispatch env h f st = (fin, s)"
  shows "\<exists>errs. callbacks (log s) = callbacks (log st) @ map CbErr errs"
    "stats (log s) = stats (log st) @ [f]"
    "potential s = potential st" "keeps (ignoreFileFinder st) (ignoreFileFinder s)"
    "fin = Some (CbOk res) \<Longrightarrow> resets (log s) = resets (log st) + length res"
    "fin = Some (CbOk res) \<Longrightarrow> stat env f = Inr True \<Longrightarrow>
       \<exists>igs. map filePath res
               = filter (\<lambda>c. extname c = ''.js'') (children (ignoreStream env f igs))"
    "fin = Some (CbOk res) \<Longrightarrow> stat env f = Inr False \<Longrightarrow>
       \<exists>r. res = [r] \<and> filePath r = f"
proof -
  obtain pr ps where P: "processFile env f h (emit (EStat f) st) = (pr, ps)"
    by fastforce
  note PL = processFile_log [OF P]
  obtain dfin ds
    where E: "executeOnDirectoryLast env f h (\<lambda>err. emit (ECallback (CbErr err)))
                (emit (EStat f) st) = (dfin, ds)"
    by fastforce
  note EL = executeOnDirectoryLast_log [OF E]
  have pot: "potential ps = potential st"
    using PL by (simp add: potential_def)
  consider (err) e where "stat env f = Inl e" "fin = Some (CbErr e)" "s = emit (EStat f) st"
    | (threw) e where "stat env f = Inr False" "pr = Inl e" "fin = None" "s = emit (EUncaught e) ps"
    | (plain) r where "stat env f = Inr False" "pr = Inr r" "fin = Some (CbOk [r])" "s = ps"
    | (dir) "stat env f = Inr True" "fin = dfin" "s = ds"
    using assms P E
    by (cases "stat env f"; cases pr)
       (auto simp: dispatch_def executeOnFileOrDirectoryLast_def Let_def split: if_splits)
  note C = this
  show "\<exists>errs. callbacks (log s) = callbacks (log st) @ map CbErr errs"
  proof (cases rule: C)
    case err then show ?thesis by (intro exI [of _ "[]"]) simp
  next
    case threw with PL show ?thesis by (intro exI [of _ "[]"]) simp
  next
    case plain with PL show ?thesis by (intro exI [of _ "[]"]) simp
  next
    case dir with EL(1) show ?thesis by simp
  qed
  show "stats (log s) = stats (log st) @ [f]"
    by (cases rule: C) (use PL EL(2) in simp_all)
  show "potential s = potential st"
    by (cases rule: C) (use pot EL(3) in \<open>simp_all add: potential_def\<close>)
  show "keeps (ignoreFileFinder st) (ignoreFileFinder s)"
    by (cases rule: C) (use PL EL(4) in simp_all)
  show "fin = Some (CbOk res) \<Longrightarrow> resets (log s) = resets (log st) + length res"
    by (cases rule: C) (use PL EL(5) [of res] in auto)
  show "fin = Some (CbOk res) \<Longrightarrow> stat env f = Inr True \<Longrightarrow>
       \<exists>igs. map filePath res
               = filter (\<lambda>c. extname c = ''.js'') (children (ignoreStream env f igs))"
    by (cases rule: C) (use EL(5) [of res] in auto)
  show "fin = Some (CbOk res) \<Longrightarrow> stat env f = Inr False \<Longrightarrow>
       \<exists>r. res = [r] \<and> filePath r = f"
    by (cases rule: C) (use processFile_filePath [of env f h "emit (EStat f) st" _ ps] P in auto)
qed

lemma since_append: "log s = log st @ evs \<Longrightarrow> since st s = evs"
  by (simp add: since_def)

lemma next_grows: "\<exists>evs. log (next env h ts st) = log st @ evs"
proof (induction ts arbitrary: st)
  case Nil
  show ?case by simp
next
  case (Cons f rest)
  obtain fin s where D: "dispatch env h f (st\<lparr>files := rest\<rparr>) = (fin, s)"
    by fastforce
  from dispatch_frame(4) [OF D] obtain evs where L: "log s = log st @ evs"
    by auto
  show ?case
  proof (cases fin)
    case None
    with D L show ?thesis by (simp add: next_Cons)
  next
    case (Some a)
    show ?thesis
    proof (cases a)
      case (CbErr e)
      with Some D L show ?thesis by (simp add: next_Cons)
    next
      case (CbOk res)
      from Cons.IH [of "s\<lparr>results := results s @ res\<rparr>"] L Some CbOk D
      show ?thesis by (auto simp: next_Cons)
    qed
  qed
qed

lemma next_frame:
  "this (next env h ts st) = this st
   \<and> potential (next env h ts st) = potential st
   \<and> keeps (ignoreFileFinder st) (ignoreFileFinder (next env h ts st))"
proof (induction ts arbitrary: st)
  case Nil
  show ?case by (simp add: potential_def)
next
  case (Cons f rest)
  obtain fin s where D: "dispatch env h f (st\<lparr>files := rest\<rparr>) = (fin, s)"
    by fastforce
  note F = dispatch_frame(1) [OF D] dispatch_log(3,4) [OF D]
  have P: "potential (st\<lparr>files := rest\<rparr>) = potential st"
    by (simp add: potential_def)
  show ?case
  proof (cases fin)
    case None
    with D F P show ?thesis by (simp add: next_Cons)
  next
    case (Some a)
    show ?thesis
    proof (cases a)
      case (CbErr e)
      with Some D F P show ?thesis by (simp add: next_Cons potential_def)
    next
      case (CbOk res)
      have P2: "potential (s\<lparr>results := results s @ res\<rparr>) = potential s"
        by (simp add: potential_def)
      from Cons.IH [of "s\<lparr>results := results s @ res\<rparr>"] Some CbOk D F P P2
      show ?thesis by (auto simp: next_Cons intro: keeps_trans)
    qed
  qed
qed

lemma next_files:
  "files st = ts \<Longrightarrow>
   files (next env h ts st) = drop (length (stats (since st (next env h ts st)))) ts"
proof (induction ts arbitrary: st)
  case Nil
  then show ?case by simp
next
  case (Cons f rest)
  obtain fin s where D: "dispatch env h f (st\<lparr>files := rest\<rparr>) = (fin, s)"
    by fastforce
  from dispatch_frame(4) [OF D] obtain evs where L: "log s = log st @ evs"
    by auto
  from dispatch_log(2) [OF D] L have S: "stats evs = [f]" by simp
  note F = dispatch_frame(2) [OF D]
  show ?case
  proof (cases fin)
    case None
    with D L S F show ?thesis by (simp add: next_Cons since_append)
  next
    case (Some a)
    show ?thesis
    proof (cases a)
      case (CbErr e)
      with Some D L S F show ?thesis by (simp add: next_Cons since_def)
    next
      case (CbOk res)
      let ?s2 = "s\<lparr>results := results s @ res\<rparr>"
      from next_grows [of env h rest ?s2] obtain evs2
        where L2: "log (next env h rest ?s2) = log ?s2 @ evs2" by blast
      from Cons.IH [of ?s2] F have "files (next env h rest ?s2) = drop (length (stats (since ?s2 (next env h rest ?s2)))) rest"
        by simp
      with L L2 S Some CbOk D show ?thesis
        by (simp add: next_Cons since_def)
    qed
  qed
qed

lemma only_errors:
  "map CbErr errs @ ys = [CbOk rs] \<Longrightarrow> errs = [] \<and> ys = [CbOk rs]"
  by (cases errs) auto

lemma core_this: "core st' = core st \<Longrightarrow> this st' = this st"
  by (simp add: core_eq_iff)

lemma next_success:
  fixes env :: "('h, 'c, 'l) env" and st :: "'l state"
  assumes "callbacks (since st (next env h ts st)) = [CbOk rs]"
  shows "\<exists>B b. callbacks B = [] \<and> stats B = ts \<and> resets B = length b
           \<and> (\<forall>st'. core st' = core st \<longrightarrow>
                  log (next env h ts st') = log st' @ B @ [ECallback (CbOk (results st' @ b))]
                \<and> results (next env h ts st') = results st' @ b
                \<and> core (next env h ts st') = core (next env h ts st))"
  using assms
proof (induction ts arbitrary: st)
  case Nil
  show ?case by (intro exI [of _ "[]"]) simp
next
  case (Cons f rest)
  obtain fin s0 where D0: "dispatch env h f (core st) = (fin, s0)"
    by fastforce
  have D: "dispatch env h f (st'\<lparr>files := rest\<rparr>) = (fin, rebase (st'\<lparr>files := rest\<rparr>) s0)"
    if "core st' = core st" for st'
    using dispatch_core [of env h f "st'\<lparr>files := rest\<rparr>"] D0 that by simp
  from dispatch_log(1) [OF D0] obtain errs where CB: "callbacks (log s0) = map CbErr errs"
    by auto
  from dispatch_log(2) [OF D0] have ST: "stats (log s0) = [f]"
    by simp
  from dispatch_frame(1) [OF D0] have TH: "this s0 = this st"
    by simp
  show ?case
  proof (cases fin)
    case None
    from D [of st] None have "next env h (f # rest) st = rebase (st\<lparr>files := rest\<rparr>) s0"
      by (simp add: next_Cons)
    then have "since st (next env h (f # rest) st) = log s0"
      by (simp add: since_def)
    with Cons.prems CB show ?thesis by auto
  next
    case (Some a)
    show ?thesis
    proof (cases a)
      case (CbErr e)
      from D [of st] Some CbErr
      have "next env h (f # rest) st = emit (ECallback (CbErr e)) (rebase (st\<lparr>files := rest\<rparr>) s0)"
        by (simp add: next_Cons)
      then have "since st (next env h (f # rest) st) = log s0 @ [ECallback (CbErr e)]"
        by (simp add: since_def)
      with Cons.prems CB have "map CbErr (errs @ [e]) = [CbOk rs]" by simp
      then show ?thesis by (simp add: map_eq_Cons_conv append_eq_Cons_conv)
    next
      case (CbOk res)
      define s2 where "s2 st' = (rebase (st'\<lparr>files := rest\<rparr>) s0)\<lparr>results := results st' @ res\<rparr>"
        for st' :: "'l state"
      have N: "next env h (f # rest) st' = next env h rest (s2 st')" if "core st' = core st" for st'
        using D [OF that] Some CbOk by (simp add: next_Cons s2_def)
      have C2: "core (s2 st') = core (s2 st)" if "core st' = core st" for st'
        using core_this [OF that] TH by (simp add: s2_def core_rebase)
      from next_grows [of env h rest "s2 st"] obtain evs
        where G: "log (next env h rest (s2 st)) = log (s2 st) @ evs" by blast
      have L2: "log (s2 st') = log st' @ log s0" for st'
        by (simp add: s2_def)
      from N [of st] G L2 have "since st (next env h (f # rest) st) = log s0 @ evs"
        and E2: "since (s2 st) (next env h rest (s2 st)) = evs"
        by (simp_all add: since_def)
      with Cons.prems CB have "map CbErr errs @ callbacks evs = [CbOk rs]"
        by simp
      from only_errors [OF this] E2 have E: "errs = []"
        and "callbacks (since (s2 st) (next env h rest (s2 st))) = [CbOk rs]"
        by simp_all
      from Cons.IH [OF this(2)] obtain B' b'
        where B: "callbacks B' = []" "stats B' = rest" "resets B' = length b'"
          and A: "\<And>st''. core st'' = core (s2 st) \<Longrightarrow>
                  log (next env h rest st'') = log st'' @ B' @ [ECallback (CbOk (results st'' @ b'))]
                \<and> results (next env h rest st'') = results st'' @ b'
                \<and> core (next env h rest st'') = core (next env h rest (s2 st))"
        by blast
      from dispatch_log(5) [OF D0, of res] Some CbOk have R: "resets (log s0) = length res"
        by simp
      have R2: "results (s2 st') = results st' @ res" for st'
        by (simp add: s2_def)
      show ?thesis
      proof (intro exI [of _ "log s0 @ B'"] exI [of _ "res @ b'"] conjI allI impI)
        show "callbacks (log s0 @ B') = []" using CB E B by simp
        show "stats (log s0 @ B') = f # rest" using ST B by simp
        show "resets (log s0 @ B') = length (res @ b')" using R B by simp
      next
        fix st' assume S: "core st' = core st"
        from A [OF C2 [OF S]] N [OF S] L2 [of st'] R2 [of st'] N [of st]
        show "log (next env h (f # rest) st')
                = log st' @ (log s0 @ B') @ [ECallback (CbOk (results st' @ res @ b'))]"
          "results (next env h (f # rest) st') = results st' @ res @ b'"
          "core (next env h (f # rest) st') = core (next env h (f # rest) st)"
          by simp_all
      qed
    qed
  qed
qed

lemma next_append:
  fixes env :: "('h, 'c, 'l) env" and st :: "'l state"
  assumes "callbacks (since st (next env h (xs @ ys) st)) = [CbOk rs]"
  shows "\<exists>A a B b. callbacks A = [] \<and> stats A = xs \<and> resets A = length a
           \<and> callbacks B = [] \<and> stats B = ys \<and> resets B = length b
           \<and> (\<forall>st'. core st' = core st \<longrightarrow>
                  log (next env h xs st') = log st' @ A @ [ECallback (CbOk (results st' @ a))]
                \<and> log (next env h (xs @ ys) st')
                    = log st' @ A @ B @ [ECallback (CbOk (results st' @ a @ b))]
                \<and> (\<forall>st''. core st'' = core (next env h xs st') \<longrightarrow>
                      log (next env h ys st'')
                        = log st'' @ B @ [ECallback (CbOk (results st'' @ b))]))"
  using assms
proof (induction xs arbitrary: st)
  case Nil
  then have "callbacks (since st (next env h ys st)) = [CbOk rs]"
    by simp
  from next_success [OF this] obtain B b
    where B: "callbacks B = []" "stats B = ys" "resets B = length b"
      and A: "\<And>st'. core st' = core st \<Longrightarrow>
                log (next env h ys st') = log st' @ B @ [ECallback (CbOk (results st' @ b))]"
    by blast
  have "callbacks [] = [] \<and> stats [] = [] \<and> resets [] = length ([] :: lint_result list)
           \<and> callbacks B = [] \<and> stats B = ys \<and> resets B = length b
           \<and> (\<forall>st'. core st' = core st \<longrightarrow>
                  log (next env h [] st') = log st' @ [] @ [ECallback (CbOk (results st' @ []))]
                \<and> log (next env h ([] @ ys) st')
                    = log st' @ [] @ B @ [ECallback (CbOk (results st' @ [] @ b))]
                \<and> (\<forall>st''. core st'' = core (next env h [] st') \<longrightarrow>
                      log (next env h ys st'')
                        = log st'' @ B @ [ECallback (CbOk (results st'' @ b))]))"
    using B A by simp
  then show ?case by blast
next
  case (Cons f rest)
  obtain fin s0 where D0: "dispatch env h f (core st) = (fin, s0)"
    by fastforce
  have D: "dispatch env h f (st'\<lparr>files := fs\<rparr>) = (fin, rebase (st'\<lparr>files := fs\<rparr>) s0)"
    if "core st' = core st" for st' fs
    using dispatch_core [of env h f "st'\<lparr>files := fs\<rparr>"] D0 that by simp
  from dispatch_log(1) [OF D0] obtain errs where CB: "callbacks (log s0) = map CbErr errs"
    by auto
  from dispatch_log(2) [OF D0] have ST: "stats (log s0) = [f]"
    by simp
  from dispatch_frame(1) [OF D0] have TH: "this s0 = this st"
    by simp
  show ?case
  proof (cases fin)
    case None
    from D [of st "rest @ ys"] None
    have "next env h ((f # rest) @ ys) st = rebase (st\<lparr>files := rest @ ys\<rparr>) s0"
      by (simp add: next_Cons)
    then have "since st (next env h ((f # rest) @ ys) st) = log s0"
      by (simp add: since_def)
    with Cons.prems CB show ?thesis by auto
  next
    case (Some c)
    show ?thesis
    proof (cases c)
      case (CbErr e)
      from D [of st "rest @ ys"] Some CbErr
      have "next env h ((f # rest) @ ys) st
              = emit (ECallback (CbErr e)) (rebase (st\<lparr>files := rest @ ys\<rparr>) s0)"
        by (simp add: next_Cons)
      then have "since st (next env h ((f # rest) @ ys) st) = log s0 @ [ECallback (CbErr e)]"
        by (simp add: since_def)
      with Cons.prems CB have "map CbErr (errs @ [e]) = [CbOk rs]" by simp
      then show ?thesis by (simp add: map_eq_Cons_conv append_eq_Cons_conv)
    next
      case (CbOk res)
      define s2 where "s2 fs st' = (rebase (st'\<lparr>files := fs\<rparr>) s0)\<lparr>results := results st' @ res\<rparr>"
        for st' :: "'l state" and fs
      have N: "next env h (f # fs) st' = next env h fs (s2 fs st')" if "core st' = core st" for st' fs
        using D [OF that] Some CbOk by (simp add: next_Cons s2_def)
      have C2: "core (s2 fs st') = core (s2 (rest @ ys) st)" if "core st' = core st" for st' fs
        using core_this [OF that] TH by (simp add: s2_def core_rebase)
      let ?s = "s2 (rest @ ys) st"
      from next_grows [of env h "rest @ ys" ?s] obtain evs
        where G: "log (next env h (rest @ ys) ?s) = log ?s @ evs" by blast
      have L2: "log (s2 fs st') = log st' @ log s0" for st' fs
        by (simp add: s2_def)
      from N [of st "rest @ ys"] G L2 have "since st (next env h ((f # rest) @ ys) st) = log s0 @ evs"
        and E2: "since ?s (next env h (rest @ ys) ?s) = evs"
        by (simp_all add: since_def)
      with Cons.prems CB have "map CbErr errs @ callbacks evs = [CbOk rs]"
        by simp
      from only_errors [OF this] E2 have E: "errs = []"
        and "callbacks (since ?s (next env h (rest @ ys) ?s)) = [CbOk rs]"
        by simp_all
      from Cons.IH [OF this(2)] obtain A' a' B b
        where B: "callbacks A' = []" "stats A' = rest" "resets A' = length a'"
               "callbacks B = []" "stats B = ys" "resets B = length b"
          and A: "\<And>st'. core st' = core ?s \<Longrightarrow>
                  log (next env h rest st') = log st' @ A' @ [ECallback (CbOk (results st' @ a'))]
                \<and> log (next env h (rest @ ys) st')
                    = log st' @ A' @ B @ [ECallback (CbOk (results st' @ a' @ b))]
                \<and> (\<forall>st''. core st'' = core (next env h rest st') \<longrightarrow>
                      log (next env h ys st'')
                        = log st'' @ B @ [ECallback (CbOk (results st'' @ b))])"
        by blast
      from dispatch_log(5) [OF D0, of res] Some CbOk have R: "resets (log s0) = length res"
        by simp
      have R2: "results (s2 fs st') = results st' @ res" for st' fs
        by (simp add: s2_def)
      show ?thesis
      proof (rule exI [of _ "log s0 @ A'"], rule exI [of _ "res @ a'"], rule exI [of _ B],
          rule exI [of _ b], intro conjI allI impI)
        show "callbacks (log s0 @ A') = []" using CB E B by simp
        show "stats (log s0 @ A') = f # rest" using ST B by simp
        show "resets (log s0 @ A') = length (res @ a')" using R B by simp
        show "callbacks B = []" "stats B = ys" "resets B = length b" using B by simp_all
      next
        fix st' assume S: "core st' = core st"
        from A [OF C2 [OF S, of rest]] N [OF S, of rest] L2 [of rest st'] R2 [of rest st']
        show "log (next env h (f # rest) st')
                = log st' @ (log s0 @ A') @ [ECallback (CbOk (results st' @ res @ a'))]"
          by simp
        from A [OF C2 [OF S, of "rest @ ys"]] N [OF S, of "rest @ ys"] L2 [of "rest @ ys" st']
          R2 [of "rest @ ys" st']
        show "log (next env h ((f # rest) @ ys) st')
                = log st' @ (log s0 @ A') @ B @ [ECallback (CbOk (results st' @ (res @ a') @ b))]"
          by simp
        fix st'' assume "core st'' = core (next env h (f # rest) st')"
        with N [OF S, of rest] have "core st'' = core (next env h rest (s2 rest st'))"
          by simp
        with A [OF C2 [OF S, of rest]]
        show "log (next env h ys st'') = log st'' @ B @ [ECallback (CbOk (results st'' @ b))]"
          by blast
      qed
    qed
  qed
qed

lemma executeOnFiles_next:
  "executeOnFiles env ts st =
     next env (newConfig env (options (this st))) ts
       (emit (ENewConfig (options (this st))) (st\<lparr>files := ts, results := []\<rparr>))"
  by (simp add: executeOnFiles_def Let_def)

lemma eventsOf_next:
  assumes "log (next env (newConfig env (options (this st))) ts
             (emit (ENewConfig (options (this st))) (st\<lparr>files := ts, results := []\<rparr>)))
           = log (emit (ENewConfig (options (this st))) (st\<lparr>files := ts, results := []\<rparr>)) @ evs"
  shows "eventsOf env ts st = ENewConfig (options (this st)) # evs"
  using assms by (simp add: eventsOf_def executeOnFiles_next since_def)

lemma eventsOf_since:
  "eventsOf env ts st =
     ENewConfig (options (this st))
       # since (emit (ENewConfig (options (this st))) (st\<lparr>files := ts, results := []\<rparr>))
           (next env (newConfig env (options (this st))) ts
              (emit (ENewConfig (options (this st))) (st\<lparr>files := ts, results := []\<rparr>)))"
proof -
  from next_grows [of env "newConfig env (options (this st))" ts
      "emit (ENewConfig (options (this st))) (st\<lparr>files := ts, results := []\<rparr>)"]
  obtain evs where
    "log (next env (newConfig env (options (this st))) ts
             (emit (ENewConfig (options (this st))) (st\<lparr>files := ts, results := []\<rparr>)))
           = log (emit (ENewConfig (options (this st))) (st\<lparr>files := ts, results := []\<rparr>)) @ evs"
    by blast
  then show ?thesis
    by (simp add: eventsOf_def executeOnFiles_next since_def)
qed

lemma single_directory:
  fixes env :: "('h, 'c, 'l) env" and st :: "'l state"
  assumes "stat env d = Inr True" and "CbOk rs \<in> set (callbacks (eventsOf env [d] st))"
  shows "\<exists>igs. map filePath rs
           = filter (\<lambda>c. extname c = ''.js'') (children (ignoreStream env d igs))"
    and "resets (eventsOf env [d] st) = length rs"
proof -
  let ?h = "newConfig env (options (this st))"
  let ?st1 = "emit (ENewConfig (options (this st))) (st\<lparr>files := [d], results := []\<rparr>)"
  obtain fin s where D: "dispatch env ?h d (?st1\<lparr>files := []\<rparr>) = (fin, s)"
    by fastforce
  from dispatch_frame(4) [OF D] obtain evs where L: "log s = log ?st1 @ evs"
    by auto
  from dispatch_log(1) [OF D] L obtain errs where CB: "callbacks evs = map CbErr errs"
    by auto
  from dispatch_frame(3) [OF D] have R: "results s = []" by simp
  have "fin = Some (CbOk rs)
        \<and> eventsOf env [d] st = ENewConfig (options (this st)) # evs @ [ECallback (CbOk rs)]"
  proof (cases fin)
    case None
    with D L have "eventsOf env [d] st = ENewConfig (options (this st)) # evs"
      by (intro eventsOf_next) (simp add: next_Cons)
    with assms(2) CB show ?thesis by auto
  next
    case (Some a)
    show ?thesis
    proof (cases a)
      case (CbErr e)
      with Some D L have "eventsOf env [d] st = ENewConfig (options (this st)) # evs @ [ECallback (CbErr e)]"
        by (intro eventsOf_next) (simp add: next_Cons)
      with assms(2) CB show ?thesis by auto
    next
      case (CbOk res)
      with Some D L R have "eventsOf env [d] st = ENewConfig (options (this st)) # evs @ [ECallback (CbOk res)]"
        by (intro eventsOf_next) (simp add: next_Cons)
      with assms(2) CB Some CbOk show ?thesis by auto
    qed
  qed
  then have F: "fin = Some (CbOk rs)"
    and E: "eventsOf env [d] st = ENewConfig (options (this st)) # evs @ [ECallback (CbOk rs)]"
    by simp_all
  from dispatch_log(6) [OF D F assms(1)]
  show "\<exists>igs. map filePath rs
           = filter (\<lambda>c. extname c = ''.js'') (children (ignoreStream env d igs))" .
  from dispatch_log(5) [OF D F] L have "resets evs = length rs" by simp
  with E show "resets (eventsOf env [d] st) = length rs" by simp
qed

section \<open>Properties: path.extname\<close>






section \<open>Properties: the constructor\<close>

lemma getProp_assign:
  "getProp (assign (Object_create defaults) given) k =
     (case given k of
        Some v \<Rightarrow> v
      | None \<Rightarrow> (case defaults k of Some d \<Rightarrow> d | None \<Rightarrow> JUndefined))"
  by (simp add: getProp_def assign_def Object_create_def map_add_def split: option.splits)

lemma CLIEngine_Inr:
  "CLIEngine env opts st = (Inr engine, st') \<Longrightarrow>
   options engine =
     assign (Object_create defaultOptions)
       (case opts of None \<Rightarrow> Map.empty | Some given \<Rightarrow> given)"
  by (auto simp: CLIEngine_def Let_def split: if_splits jsval.splits prod.splits option.splits)

lemma defaults_read:
  "map (getProp (Object_create defaultOptions))
       [''configFile'', ''reset'', ''rulePaths'', ''useEslintrc'', ''envs'', ''globals'',
        ''rules'', ''ignore'', ''ignorePath'']
     = [JNull, JBool False, JArray [], JBool True, JArray [], JArray [], JObject [],
        JBool True, JNull]"
  by (simp add: getProp_def Object_create_def defaultOptions_def)

lemma CLIEngine_None:
  "CLIEngine env None st = (Inr \<lparr>options = Object_create defaultOptions\<rparr>, st)"
  by (simp add: CLIEngine_def Let_def assign_def Object_create_def getProp_def
        defaultOptions_def)

lemma example_engine:
  "CLIEngine exampleEnv (Some exampleOptions) exampleState =
     (Inr \<lparr>options = assign (Object_create defaultOptions) exampleOptions\<rparr>,
      emit (ERulesLoad (JString ''myrules'')) exampleState)"
  by (simp add: CLIEngine_def Let_def getProp_def assign_def Object_create_def
        exampleOptions_def exampleEnv_def defaultOptions_def)

text \<open>
  C7. Whenever the constructor returns an engine, reading any property \<open>k\<close> of its
  stored options gives the caller's value if the caller's object has the property, and
  otherwise the value of \<^verbatim>\<open>defaultOptions\<close> (undefined if that has none either). A
  call without options returns an engine whose options have no own property and read as
  the defaults: configFile null, reset false, rulePaths [], useEslintrc true, envs [],
  globals [], rules {}, ignore true, ignorePath null.
\<close>

theorem CLIEngine_options:
  "(CLIEngine env opts st = (Inr engine, st') \<longrightarrow>
      getProp (options engine) k =
        (case (case opts of None \<Rightarrow> Map.empty | Some given \<Rightarrow> given) k of
           Some v \<Rightarrow> v
         | None \<Rightarrow> (case defaultOptions k of Some d \<Rightarrow> d | None \<Rightarrow> JUndefined)))
   \<and> CLIEngine env None st = (Inr \<lparr>options = Object_create defaultOptions\<rparr>, st)
   \<and> map (getProp (Object_create defaultOptions))
       [''configFile'', ''reset'', ''rulePaths'', ''useEslintrc'', ''envs'', ''globals'',
        ''rules'', ''ignore'', ''ignorePath'']
     = [JNull, JBool False, JArray [], JBool True, JArray [], JArray [], JObject [],
        JBool True, JNull]"
  using CLIEngine_Inr [of env opts st engine st'] getProp_assign CLIEngine_None defaults_read
  by (simp del: list.map)

theorem CLIEngine_options_witness:
  "CLIEngine exampleEnv (Some exampleOptions) exampleState =
     (Inr \<lparr>options = assign (Object_create defaultOptions) exampleOptions\<rparr>,
      emit (ERulesLoad (JString ''myrules'')) exampleState)
   \<and> getProp (assign (Object_create defaultOptions) exampleOptions) ''reset'' = JBool True
   \<and> getProp (assign (Object_create defaultOptions) exampleOptions) ''ignore'' = JBool True"
  using example_engine
    CLIEngine_options [of exampleEnv "Some exampleOptions" exampleState
       "\<lparr>options = assign (Object_create defaultOptions) exampleOptions\<rparr>"
       "emit (ERulesLoad (JString ''myrules'')) exampleState" "''reset''"]
    CLIEngine_options [of exampleEnv "Some exampleOptions" exampleState
       "\<lparr>options = assign (Object_create defaultOptions) exampleOptions\<rparr>"
       "emit (ERulesLoad (JString ''myrules'')) exampleState" "''ignore''"]
  by (simp add: exampleOptions_def defaultOptions_def)

section \<open>Properties: processFile\<close>

text \<open>
  C8. The first thing \<open>processFile\<close> does is \<^verbatim>\<open>eslint.reset()\<close>: what it appends to
  the log starts with the reset, and \<^verbatim>\<open>eslint.verify\<close>, when it is called, is the last
  entry. Nothing of the linter's state before the call survives: the result and the
  linter's state afterwards are the same whatever that state was.
\<close>

theorem processFile_resets_first:
  "since st (snd (processFile env filename configHelper st))
     \<in> {[EReset, EExistsSync (resolve env [filename])],
        [EReset, EExistsSync (resolve env [filename]), EGetConfig (resolve env [filename]),
         EReadFileSync (resolve env [filename])],
        [EReset, EExistsSync (resolve env [filename]), EGetConfig (resolve env [filename]),
         EReadFileSync (resolve env [filename]), EVerify filename]}
   \<and> fst (processFile env filename configHelper (st\<lparr>linter := l\<rparr>))
       = fst (processFile env filename configHelper st)
   \<and> linter (snd (processFile env filename configHelper (st\<lparr>linter := l\<rparr>)))
       = linter (snd (processFile env filename configHelper st))"
  by (simp add: processFile_def since_def Let_def emit_def split: sum.splits prod.splits)

section \<open>Properties: executeOnFiles\<close>

text \<open>
  C10. On an empty target list \<open>executeOnFiles\<close> constructs the configuration helper
  and calls the callback once, with no error and the empty result list. It makes no
  other call: no \<^verbatim>\<open>fs\<close> call, no stream, no locator.
\<close>

theorem executeOnFiles_empty:
  "log (executeOnFiles env [] st)
     = log st @ [ENewConfig (options (this st)), ECallback (CbOk [])]
   \<and> eventsOf env [] st = [ENewConfig (options (this st)), ECallback (CbOk [])]
   \<and> callbacks (eventsOf env [] st) = [CbOk []]"
  by (simp add: eventsOf_def since_def executeOnFiles_def Let_def)

section \<open>Properties: runs on the example filesystem\<close>

lemmas run_defs = eventsOf_def since_def executeOnFiles_def exampleEnv_def exampleState_def
      executeOnFileOrDirectory_def executeOnDirectory_def onStream_def processFile_def
      findIgnoreFiles_def findAll_def existsSync_def emit_def Let_def extname_def lastPortion_def
      stripTrailingSlashes_def ESLINT_IGNORE_FILENAME_def next.simps(2) unreadableParentEnv_def
      laterEnv_def brokenWalkEnv_def jsDirectoryEnv_def patternEnv_def patternUnreadableEnv_def

lemma stat_failure_aborts:
  "stat env f = Inl err \<Longrightarrow>
   eventsOf env (f # rest) st
     = [ENewConfig (options (this st)), EStat f, ECallback (CbErr err)]
   \<and> files (executeOnFiles env (f # rest) st) = rest"
  by (simp add: eventsOf_def since_def executeOnFiles_def Let_def next.simps(2)
        executeOnFileOrDirectory_def)

lemma stream_error_aborts:
  "eventsOf brokenWalkEnv [''lib'', ''a.js''] exampleState =
     [ENewConfig (Object_create defaultOptions), EStat ''lib'', ENewIgnore ''lib'',
      ENewFileFinder ''.eslintignore'', EFindAll ''/w'', EScan ''/w'', EPause,
      EAddIgnoreFile ''/w/.eslintignore'', EResume,
      EChild ''/w/lib/x.js'', EReset, EExistsSync ''/w/lib/x.js'', EGetConfig ''/w/lib/x.js'',
      EReadFileSync ''/w/lib/x.js'', EVerify ''/w/lib/x.js'',
      ECallback (CbErr (EACCES ''/w/lib/sub''))]
   \<and> files (executeOnFiles brokenWalkEnv [''lib'', ''a.js''] exampleState) = [''a.js'']"
  by (simp add: run_defs)

lemma example_run:
  "eventsOf exampleEnv [''lib'', ''a.js''] exampleState =
     [ENewConfig (Object_create defaultOptions), EStat ''lib'', ENewIgnore ''lib'',
      ENewFileFinder ''.eslintignore'', EFindAll ''/w'', EScan ''/w'', EPause,
      EAddIgnoreFile ''/w/.eslintignore'', EResume,
      EChild ''/w/lib/x.js'', EReset, EExistsSync ''/w/lib/x.js'', EGetConfig ''/w/lib/x.js'',
      EReadFileSync ''/w/lib/x.js'', EVerify ''/w/lib/x.js'', EChild ''/w/lib/notes.txt'',
      EStat ''a.js'', EReset, EExistsSync ''/w/a.js'', EGetConfig ''/w/a.js'',
      EReadFileSync ''/w/a.js'', EVerify ''a.js'',
      ECallback (CbOk
        [\<lparr>filePath = ''/w/lib/x.js'', messages = [\<lparr>fatal = False, message = ''var x;''\<rparr>]\<rparr>,
         \<lparr>filePath = ''a.js'', messages = [\<lparr>fatal = False, message = ''var a;''\<rparr>]\<rparr>])]"
  by (simp add: run_defs)


section \<open>Properties: order, aggregation and the caller's array\<close>

text \<open>
  C3. Whenever the run over the targets \<open>xs @ ys\<close> calls the callback once, with no
  error and the results \<open>rs\<close>: the run over \<open>xs\<close> alone ends the same way, with results
  \<open>rs1\<close>; the run over \<open>ys\<close>, started in the state the first run left, ends the same
  way, with results \<open>rs2\<close>; \<open>rs = rs1 @ rs2\<close>; and the events of the whole run are
  those of the first run up to its callback, followed by those of the second. The events
  of each part hold no call of the callback and stat exactly the targets of that part,
  in the order given: no dispatch starts before the one before it has handed over its
  results. When \<open>xs\<close> is a single directory, the file paths of \<open>rs1\<close> are the entries
  of its stream with extension \<^verbatim>\<open>.js\<close>, in the order the stream emitted them.
\<close>

theorem executeOnFiles_in_order:
  fixes env :: "('h, 'c, 'l) env" and st :: "'l state"
  assumes "callbacks (eventsOf env (xs @ ys) st) = [CbOk rs]"
  shows "\<exists>A B rs1 rs2.
           eventsOf env xs st = ENewConfig (options (this st)) # A @ [ECallback (CbOk rs1)]
         \<and> eventsOf env ys (executeOnFiles env xs st)
             = ENewConfig (options (this st)) # B @ [ECallback (CbOk rs2)]
         \<and> eventsOf env (xs @ ys) st
             = ENewConfig (options (this st)) # A @ B @ [ECallback (CbOk (rs1 @ rs2))]
         \<and> rs = rs1 @ rs2
         \<and> callbacks A = [] \<and> callbacks B = [] \<and> stats A = xs \<and> stats B = ys
         \<and> (\<forall>d. xs = [d] \<and> stat env d = Inr True \<longrightarrow>
               (\<exists>igs. map filePath rs1
                  = filter (\<lambda>c. extname c = ''.js'') (children (ignoreStream env d igs))))"
proof -
  let ?o = "options (this st)"
  let ?h = "newConfig env ?o"
  define st1 where "st1 ts = emit (ENewConfig ?o) (st\<lparr>files := ts, results := []\<rparr>)" for ts
  have X: "executeOnFiles env ts st = next env ?h ts (st1 ts)" for ts
    by (simp add: executeOnFiles_next st1_def)
  have C: "core (st1 ts) = core (st1 (xs @ ys))" for ts
    by (simp add: st1_def)
  have EV: "eventsOf env ts st = ENewConfig ?o # evs"
    if "log (next env ?h ts (st1 ts)) = log (st1 ts) @ evs" for ts evs
    using that by (intro eventsOf_next) (simp add: st1_def)
  from assms eventsOf_since [of env "xs @ ys" st]
  have "callbacks (since (st1 (xs @ ys)) (next env ?h (xs @ ys) (st1 (xs @ ys)))) = [CbOk rs]"
    by (simp add: st1_def)
  from next_append [OF this] obtain A a B b
    where P: "callbacks A = []" "stats A = xs" "callbacks B = []" "stats B = ys"
      and N: "\<And>st'. core st' = core (st1 (xs @ ys)) \<Longrightarrow>
                  log (next env ?h xs st') = log st' @ A @ [ECallback (CbOk (results st' @ a))]
                \<and> log (next env ?h (xs @ ys) st')
                    = log st' @ A @ B @ [ECallback (CbOk (results st' @ a @ b))]
                \<and> (\<forall>st''. core st'' = core (next env ?h xs st') \<longrightarrow>
                      log (next env ?h ys st'')
                        = log st'' @ B @ [ECallback (CbOk (results st'' @ b))])"
    by blast
  have R: "results (st1 ts) = []" for ts
    by (simp add: st1_def)
  from N [OF C [of xs]] R have "log (next env ?h xs (st1 xs)) = log (st1 xs) @ A @ [ECallback (CbOk a)]"
    by simp
  from EV [OF this] have E1: "eventsOf env xs st = ENewConfig ?o # A @ [ECallback (CbOk a)]" .
  from N [OF refl] R
  have "log (next env ?h (xs @ ys) (st1 (xs @ ys)))
          = log (st1 (xs @ ys)) @ (A @ B @ [ECallback (CbOk (a @ b))])"
    by simp
  from EV [OF this]
  have E3: "eventsOf env (xs @ ys) st = ENewConfig ?o # A @ B @ [ECallback (CbOk (a @ b))]" .
  with assms P have rs: "rs = a @ b"
    by simp
  let ?X = "executeOnFiles env xs st"
  have TX: "this ?X = this st"
    using next_frame [of env ?h xs "st1 xs"] by (simp add: X st1_def)
  let ?y1 = "emit (ENewConfig ?o) (?X\<lparr>files := ys, results := []\<rparr>)"
  have "core ?y1 = core (next env ?h xs (st1 xs))"
    by (simp add: X)
  with N [OF C [of xs]]
  have "log (next env ?h ys ?y1) = log ?y1 @ B @ [ECallback (CbOk (results ?y1 @ b))]"
    by blast
  then have E2: "eventsOf env ys ?X = ENewConfig ?o # B @ [ECallback (CbOk b)]"
    using TX by (intro eventsOf_next [of env ?X ys, unfolded TX]) simp
  have DIR: "\<exists>igs. map filePath a
                  = filter (\<lambda>c. extname c = ''.js'') (children (ignoreStream env d igs))"
    if "xs = [d]" "stat env d = Inr True" for d
  proof -
    from E1 that P have "CbOk a \<in> set (callbacks (eventsOf env [d] st))"
      by simp
    from single_directory(1) [OF that(2) this] show ?thesis .
  qed
  show ?thesis
    using E1 E2 E3 rs P DIR by blast
qed

theorem executeOnFiles_in_order_witness:
  "callbacks (eventsOf exampleEnv ([''lib''] @ [''a.js'']) exampleState) =
     [CbOk
        [\<lparr>filePath = ''/w/lib/x.js'', messages = [\<lparr>fatal = False, message = ''var x;''\<rparr>]\<rparr>,
         \<lparr>filePath = ''a.js'', messages = [\<lparr>fatal = False, message = ''var a;''\<rparr>]\<rparr>]]
   \<and> stat exampleEnv ''lib'' = Inr True
   \<and> (\<exists>A B rs1 rs2.
         eventsOf exampleEnv [''lib''] exampleState
           = ENewConfig (options (this exampleState)) # A @ [ECallback (CbOk rs1)]
       \<and> eventsOf exampleEnv [''a.js''] (executeOnFiles exampleEnv [''lib''] exampleState)
           = ENewConfig (options (this exampleState)) # B @ [ECallback (CbOk rs2)]
       \<and> eventsOf exampleEnv ([''lib''] @ [''a.js'']) exampleState
           = ENewConfig (options (this exampleState)) # A @ B @ [ECallback (CbOk (rs1 @ rs2))]
       \<and> [\<lparr>filePath = ''/w/lib/x.js'', messages = [\<lparr>fatal = False, message = ''var x;''\<rparr>]\<rparr>,
           \<lparr>filePath = ''a.js'', messages = [\<lparr>fatal = False, message = ''var a;''\<rparr>]\<rparr>]
           = rs1 @ rs2
       \<and> callbacks A = [] \<and> callbacks B = [] \<and> stats A = [''lib''] \<and> stats B = [''a.js'']
       \<and> (\<forall>d. [''lib''] = [d] \<and> stat exampleEnv d = Inr True \<longrightarrow>
             (\<exists>igs. map filePath rs1
                = filter (\<lambda>c. extname c = ''.js'') (children (ignoreStream exampleEnv d igs)))))"
proof -
  have h: "callbacks (eventsOf exampleEnv ([''lib''] @ [''a.js'']) exampleState) =
     [CbOk
        [\<lparr>filePath = ''/w/lib/x.js'', messages = [\<lparr>fatal = False, message = ''var x;''\<rparr>]\<rparr>,
         \<lparr>filePath = ''a.js'', messages = [\<lparr>fatal = False, message = ''var a;''\<rparr>]\<rparr>]]"
    using example_run by simp
  have d: "stat exampleEnv ''lib'' = Inr True"
    by (simp add: exampleEnv_def)
  note T = executeOnFiles_in_order [OF h]
  from d T have "stat exampleEnv ''lib'' = Inr True
   \<and> (\<exists>A B rs1 rs2.
         eventsOf exampleEnv [''lib''] exampleState
           = ENewConfig (options (this exampleState)) # A @ [ECallback (CbOk rs1)]
       \<and> eventsOf exampleEnv [''a.js''] (executeOnFiles exampleEnv [''lib''] exampleState)
           = ENewConfig (options (this exampleState)) # B @ [ECallback (CbOk rs2)]
       \<and> eventsOf exampleEnv ([''lib''] @ [''a.js'']) exampleState
           = ENewConfig (options (this exampleState)) # A @ B @ [ECallback (CbOk (rs1 @ rs2))]
       \<and> [\<lparr>filePath = ''/w/lib/x.js'', messages = [\<lparr>fatal = False, message = ''var x;''\<rparr>]\<rparr>,
           \<lparr>filePath = ''a.js'', messages = [\<lparr>fatal = False, message = ''var a;''\<rparr>]\<rparr>]
           = rs1 @ rs2
       \<and> callbacks A = [] \<and> callbacks B = [] \<and> stats A = [''lib''] \<and> stats B = [''a.js'']
       \<and> (\<forall>d. [''lib''] = [d] \<and> stat exampleEnv d = Inr True \<longrightarrow>
             (\<exists>igs. map filePath rs1
                = filter (\<lambda>c. extname c = ''.js'') (children (ignoreStream exampleEnv d igs)))))"
    by (rule conjI)
  with h show ?thesis
    by (rule conjI)
qed

text \<open>
  C9. Every \<^verbatim>\<open>fs.stat\<close> of a target goes with one \<^verbatim>\<open>files.shift()\<close>: after any
  run the caller's array holds the targets that were not dispatched. After a run that
  ended with the results and no error every target was dispatched, and the array is
  empty. The engine, with the options object stored at construction, is as it was.
\<close>

theorem executeOnFiles_shifts:
  fixes env :: "('h, 'c, 'l) env" and st :: "'l state"
  shows "files (executeOnFiles env targets st)
           = drop (length (stats (eventsOf env targets st))) targets
         \<and> this (executeOnFiles env targets st) = this st
         \<and> (callbacks (eventsOf env targets st) = [CbOk rs] \<longrightarrow>
               stats (eventsOf env targets st) = targets
             \<and> files (executeOnFiles env targets st) = [])"
proof -
  let ?o = "options (this st)"
  let ?h = "newConfig env ?o"
  let ?st1 = "emit (ENewConfig ?o) (st\<lparr>files := targets, results := []\<rparr>)"
  have F: "files (executeOnFiles env targets st)
           = drop (length (stats (eventsOf env targets st))) targets"
    using next_files [of ?st1 targets env ?h] eventsOf_since [of env targets st]
    by (simp add: executeOnFiles_next)
  have T: "this (executeOnFiles env targets st) = this st"
    using next_frame [of env ?h targets ?st1] by (simp add: executeOnFiles_next)
  have S: "stats (eventsOf env targets st) = targets"
    if "callbacks (eventsOf env targets st) = [CbOk rs]"
  proof -
    from that eventsOf_since [of env targets st]
    have "callbacks (since ?st1 (next env ?h targets ?st1)) = [CbOk rs]"
      by simp
    from next_success [OF this] obtain B b where "stats B = targets"
      "log (next env ?h targets ?st1) = log ?st1 @ B @ [ECallback (CbOk (results ?st1 @ b))]"
      by blast
    from eventsOf_next [OF this(2)] this(1) show ?thesis by simp
  qed
  from F T S show ?thesis by simp
qed

theorem executeOnFiles_shifts_witness:
  "callbacks (eventsOf exampleEnv [''lib'', ''a.js''] exampleState) =
     [CbOk
        [\<lparr>filePath = ''/w/lib/x.js'', messages = [\<lparr>fatal = False, message = ''var x;''\<rparr>]\<rparr>,
         \<lparr>filePath = ''a.js'', messages = [\<lparr>fatal = False, message = ''var a;''\<rparr>]\<rparr>]]
   \<and> stats (eventsOf exampleEnv [''lib'', ''a.js''] exampleState) = [''lib'', ''a.js'']
   \<and> files (executeOnFiles exampleEnv [''lib'', ''a.js''] exampleState) = []
   \<and> this (executeOnFiles exampleEnv [''lib'', ''a.js''] exampleState) = this exampleState"
proof -
  have h: "callbacks (eventsOf exampleEnv [''lib'', ''a.js''] exampleState) =
     [CbOk
        [\<lparr>filePath = ''/w/lib/x.js'', messages = [\<lparr>fatal = False, message = ''var x;''\<rparr>]\<rparr>,
         \<lparr>filePath = ''a.js'', messages = [\<lparr>fatal = False, message = ''var a;''\<rparr>]\<rparr>]]"
    using example_run by simp
  from executeOnFiles_shifts [of exampleEnv "[''lib'', ''a.js'']" exampleState] h
  show ?thesis by simp
qed

section \<open>Properties: the directory walk\<close>

lemma seen_append [simp]: "seen (xs @ ys) = seen xs @ seen ys"
  by (induction xs rule: seen.induct) simp_all

lemma checked_append [simp]: "checked (xs @ ys) = checked xs @ checked ys"
  by (induction xs rule: checked.induct) simp_all

lemma uncaught_append [simp]: "uncaught (xs @ ys) = uncaught xs @ uncaught ys"
  by (induction xs rule: uncaught.induct) simp_all














section \<open>Properties: the locator\<close>

text \<open>
  C5 as it is stated fails. A first call walks \<^verbatim>\<open>lib\<close>; then \<^verbatim>\<open>/w/.eslintignore\<close> is
  deleted, and a second engine walks \<^verbatim>\<open>lib\<close> again. The second call constructs no
  locator and does not scan the filesystem: it is served the answer the first call
  cached, and adds the deleted file to its stream.
\<close>

theorem locator_outlives_the_call:
  "scan laterEnv ESLINT_IGNORE_FILENAME ''/w'' = Inr []
   \<and> eventsOf laterEnv [''lib'']
        ((executeOnFiles exampleEnv [''lib''] exampleState)\<lparr>this := secondEngine\<rparr>) =
       [ENewConfig (options secondEngine), EStat ''lib'', ENewIgnore ''lib'',
        EFindAll ''/w'', EPause, EAddIgnoreFile ''/w/.eslintignore'', EResume,
        EChild ''/w/lib/x.js'', EReset, EExistsSync ''/w/lib/x.js'', EGetConfig ''/w/lib/x.js'',
        EReadFileSync ''/w/lib/x.js'', EVerify ''/w/lib/x.js'', EChild ''/w/lib/notes.txt'',
        ECallback (CbOk
          [\<lparr>filePath = ''/w/lib/x.js'',
            messages = [\<lparr>fatal = False, message = ''var x;''\<rparr>]\<rparr>])]
   \<and> newFinders (eventsOf laterEnv [''lib'']
        ((executeOnFiles exampleEnv [''lib''] exampleState)\<lparr>this := secondEngine\<rparr>)) = 0"
  by (simp add: run_defs)

text \<open>
  C5, amended. The locator is a variable of the module. A call of \<open>executeOnFiles\<close>
  constructs one only if none exists yet, and then at most one; a locator that exists
  when the call starts is still there when it ends, with its file name and every answer
  it had cached, whichever engine makes the call.
\<close>

theorem locator_is_module_wide:
  fixes env :: "('h, 'c, 'l) env" and st :: "'l state"
  shows "newFinders (eventsOf env targets st)
           \<le> (case ignoreFileFinder st of None \<Rightarrow> 1 | Some _ \<Rightarrow> 0)
         \<and> keeps (ignoreFileFinder st) (ignoreFileFinder (executeOnFiles env targets st))"
proof -
  let ?o = "options (this st)"
  let ?h = "newConfig env ?o"
  let ?st1 = "emit (ENewConfig ?o) (st\<lparr>files := targets, results := []\<rparr>)"
  from next_grows [of env ?h targets ?st1] obtain evs
    where L: "log (next env ?h targets ?st1) = log ?st1 @ evs" by blast
  from eventsOf_next [OF L] have E: "eventsOf env targets st = ENewConfig ?o # evs" .
  from next_frame [of env ?h targets ?st1]
  have P: "potential (next env ?h targets ?st1) = potential ?st1"
    and K: "keeps (ignoreFileFinder st) (ignoreFileFinder (executeOnFiles env targets st))"
    by (simp_all add: executeOnFiles_next)
  from P L have "newFinders evs \<le> (case ignoreFileFinder st of None \<Rightarrow> 1 | Some _ \<Rightarrow> 0)"
    by (simp add: potential_def split: option.splits)
  with E K show ?thesis by simp
qed

section \<open>Properties: errors\<close>

text \<open>
  C1 at its failing input. The locator cannot read the parent of \<^verbatim>\<open>lib\<close>. The
  \<^verbatim>\<open>catch\<close> of \<open>executeOnDirectory\<close> hands the error to the callback, but the stream
  it created keeps running: its entries are linted, its \<^verbatim>\<open>end\<close> calls \<^verbatim>\<open>cb\<close> a second
  time, \<^verbatim>\<open>next\<close> goes on to \<^verbatim>\<open>a.js\<close>, and the callback is called again, with the
  results of both targets.
\<close>

theorem catch_leaves_stream_running:
  "eventsOf unreadableParentEnv [''lib'', ''a.js''] exampleState =
     [ENewConfig (Object_create defaultOptions), EStat ''lib'', ENewIgnore ''lib'',
      ENewFileFinder ''.eslintignore'', EFindAll ''/w'', EScan ''/w'',
      ECallback (CbErr (EACCES ''/w'')),
      EChild ''/w/lib/x.js'', EReset, EExistsSync ''/w/lib/x.js'', EGetConfig ''/w/lib/x.js'',
      EReadFileSync ''/w/lib/x.js'', EVerify ''/w/lib/x.js'', EChild ''/w/lib/notes.txt'',
      EStat ''a.js'', EReset, EExistsSync ''/w/a.js'', EGetConfig ''/w/a.js'',
      EReadFileSync ''/w/a.js'', EVerify ''a.js'',
      ECallback (CbOk
        [\<lparr>filePath = ''/w/lib/x.js'', messages = [\<lparr>fatal = False, message = ''var x;''\<rparr>]\<rparr>,
         \<lparr>filePath = ''a.js'', messages = [\<lparr>fatal = False, message = ''var a;''\<rparr>]\<rparr>])]
   \<and> callbacks (eventsOf unreadableParentEnv [''lib'', ''a.js''] exampleState) =
     [CbErr (EACCES ''/w''),
      CbOk
        [\<lparr>filePath = ''/w/lib/x.js'', messages = [\<lparr>fatal = False, message = ''var x;''\<rparr>]\<rparr>,
         \<lparr>filePath = ''a.js'', messages = [\<lparr>fatal = False, message = ''var a;''\<rparr>]\<rparr>]]"
  by (simp add: run_defs)

text \<open>
  C4 at its failing input. \<^verbatim>\<open>/w/.eslintignore\<close> lists \<^verbatim>\<open>lib/x.js\<close>. When the locator
  finds that file, the stream of \<^verbatim>\<open>lib\<close> is paused, the file is added, the stream is
  resumed, and \<^verbatim>\<open>x.js\<close> is not among its entries. When the locator throws, the
  \<^verbatim>\<open>catch\<close> returns with the stream running: it is never paused, no ancestor ignore
  file is added, and \<^verbatim>\<open>x.js\<close> is linted and its result handed to the callback.
\<close>

theorem catch_skips_the_barrier:
  "eventsOf patternEnv [''lib''] exampleState =
     [ENewConfig (Object_create defaultOptions), EStat ''lib'', ENewIgnore ''lib'',
      ENewFileFinder ''.eslintignore'', EFindAll ''/w'', EScan ''/w'', EPause,
      EAddIgnoreFile ''/w/.eslintignore'', EResume,
      EChild ''/w/lib/notes.txt'', ECallback (CbOk [])]
   \<and> eventsOf patternUnreadableEnv [''lib''] exampleState =
     [ENewConfig (Object_create defaultOptions), EStat ''lib'', ENewIgnore ''lib'',
      ENewFileFinder ''.eslintignore'', EFindAll ''/w'', EScan ''/w'',
      ECallback (CbErr (EACCES ''/'')),
      EChild ''/w/lib/x.js'', EReset, EExistsSync ''/w/lib/x.js'', EGetConfig ''/w/lib/x.js'',
      EReadFileSync ''/w/lib/x.js'', EVerify ''/w/lib/x.js'', EChild ''/w/lib/notes.txt'',
      ECallback (CbOk
        [\<lparr>filePath = ''/w/lib/x.js'',
          messages = [\<lparr>fatal = False, message = ''var x;''\<rparr>]\<rparr>])]"
  by (simp add: run_defs)

text \<open>
  C2 at its failing input. \<^verbatim>\<open>nope.js\<close> does not exist, so \<^verbatim>\<open>fs.stat\<close> fails and the
  callback gets that error; \<open>processFile\<close>, which would have returned the result with
  the one fatal message, is never reached, and \<^verbatim>\<open>a.js\<close> is left in the array.
\<close>

theorem missing_file_aborts:
  "stat exampleEnv ''nope.js'' = Inl (ENOENT ''nope.js'')
   \<and> eventsOf exampleEnv [''nope.js'', ''a.js''] exampleState =
       [ENewConfig (Object_create defaultOptions), EStat ''nope.js'',
        ECallback (CbErr (ENOENT ''nope.js''))]
   \<and> files (executeOnFiles exampleEnv [''nope.js'', ''a.js''] exampleState) = [''a.js'']
   \<and> fst (processFile exampleEnv ''nope.js''
             (newConfig exampleEnv (Object_create defaultOptions)) exampleState) =
       Inr \<lparr>filePath = ''nope.js'',
            messages = [\<lparr>fatal = True,
                         message = ''Could not find file at '' @ [CHR 0x27] @ ''/w/nope.js''
                                     @ [CHR 0x27] @ ''.''\<rparr>]\<rparr>"
  by (simp add: run_defs)

end
